theory Spec2Isabelle
  imports Main "HOL-Library.Word"
begin

unbundle bit_operations_syntax

section \<open>nvhost\_nvdec\_common: the device-control operations of the video decoder\<close>

text \<open>
  A shallow embedding of \<^verbatim>\<open>src/core/hle/service/nvdrv/devices/nvhost_nvdec_common.cpp\<close>.
  Byte buffers are lists of bytes, the fixed-width integers of the source are words, the
  ordered map \<^verbatim>\<open>buffer_mappings\<close> is a list of key/value pairs in key order, and every
  \<^verbatim>\<open>memcpy\<close> checks its range: a copy that leaves the buffer it reads or writes is
  undefined behaviour in the source and is an error value here.
\<close>

subsection \<open>Machine types and outcomes\<close>

type_synonym u8 = "8 word"
type_synonym u32 = "32 word"
type_synonym u64 = "64 word"

text \<open>
  What an operation can do instead of returning a status. \<open>OutOfBoundsRead\<close> and
  \<open>OutOfBoundsWrite\<close> stand for a \<^verbatim>\<open>memcpy\<close> whose source or destination range leaves
  its object (the source has no length check, so this is its undefined behaviour).
  \<open>BadAlloc\<close> is the exception \<^verbatim>\<open>std::bad_alloc\<close> of a vector whose storage cannot be
  allocated; nothing in the file catches it.
  Modelled from the spec: the macro \<^verbatim>\<open>ASSERT\<close> of common/assert.h, which is not part of
  the sources at hand; the spec calls a failed assertion fatal, so it is the outcome
  \<open>AssertionFailed\<close>.
\<close>

datatype error = OutOfBoundsRead | OutOfBoundsWrite | AssertionFailed | BadAlloc

text \<open>The namespace \<^verbatim>\<open>NvErrCodes\<close>: \<^verbatim>\<open>static_cast<u32>(-12)\<close> and \<^verbatim>\<open>static_cast<u32>(-22)\<close>.\<close>

definition Success :: u32 where
  "Success = 0"

definition OutOfMemory :: u32 where
  "OutOfMemory = - 12"

definition InvalidInput :: u32 where
  "InvalidInput = - 22"

subsection \<open>The byte codec\<close>

text \<open>A \<^verbatim>\<open>u32\<close> in memory, least significant byte first (the platform is little-endian).\<close>

definition u32_of_bytes :: "u8 \<Rightarrow> u8 \<Rightarrow> u8 \<Rightarrow> u8 \<Rightarrow> u32" where
  "u32_of_bytes b0 b1 b2 b3 =
     ucast b0 OR push_bit 8 (ucast b1) OR push_bit 16 (ucast b2) OR push_bit 24 (ucast b3)"

definition load_u32 :: "u8 list \<Rightarrow> nat \<Rightarrow> u32" where
  "load_u32 bs off =
     u32_of_bytes (bs ! off) (bs ! (off + 1)) (bs ! (off + 2)) (bs ! (off + 3))"

definition store_u32 :: "u32 \<Rightarrow> u8 list" where
  "store_u32 w = [ucast w, ucast (drop_bit 8 w), ucast (drop_bit 16 w), ucast (drop_bit 24 w)]"

text \<open>
  \<^verbatim>\<open>std::memcpy(dst.data() + offset, bytes, n)\<close> into a byte vector: the bytes replace
  the range \<open>[offset, offset + n)\<close> of \<open>dst\<close>, which has to lie inside \<open>dst\<close>.
\<close>

definition memcpy_to :: "u8 list \<Rightarrow> nat \<Rightarrow> u8 list \<Rightarrow> error + u8 list" where
  "memcpy_to dst offset bytes =
     (if offset + length bytes \<le> length dst
      then Inr (take offset dst @ bytes @ drop (offset + length bytes) dst)
      else Inl OutOfBoundsWrite)"

text \<open>
  \<^verbatim>\<open>SpliceVectors<T>\<close>: copies \<open>count * sizeof(T)\<close> bytes of \<open>input\<close> from \<open>offset\<close> on
  into a vector of \<open>count\<close> elements and returns the new offset. \<open>sz\<close> is \<open>sizeof(T)\<close> and
  \<open>load\<close> reads one \<open>T\<close> from the bytes at an offset. The source copies without looking
  at \<open>input.size()\<close>; the range check here only marks where that copy reads past the end.
  Offsets are natural numbers: the counts are 32-bit and the elements a few bytes long, so
  the 64-bit \<^verbatim>\<open>std::size_t\<close> of the source does not wrap.
\<close>

definition SpliceVectors ::
  "nat \<Rightarrow> (u8 list \<Rightarrow> nat \<Rightarrow> 'a) \<Rightarrow> u8 list \<Rightarrow> nat \<Rightarrow> nat \<Rightarrow> error + ('a list \<times> nat)" where
  "SpliceVectors sz load input count offset =
     (if offset + count * sz \<le> length input
      then Inr (map (\<lambda>i. load input (offset + i * sz)) [0..<count], offset + count * sz)
      else Inl OutOfBoundsRead)"

text \<open>
  \<^verbatim>\<open>WriteVectors<T>\<close>: copies the \<open>src.size() * sizeof(T)\<close> bytes of \<open>src\<close> into \<open>dst\<close>
  at \<open>offset\<close> and returns the new offset; \<open>store\<close> gives the bytes of one \<open>T\<close>.
\<close>

definition WriteVectors ::
  "('a \<Rightarrow> u8 list) \<Rightarrow> u8 list \<Rightarrow> 'a list \<Rightarrow> nat \<Rightarrow> error + (u8 list \<times> nat)" where
  "WriteVectors store dst src offset =
     (case memcpy_to dst offset (concat (map store src)) of
        Inl e \<Rightarrow> Inl e
      | Inr dst' \<Rightarrow> Inr (dst', offset + length (concat (map store src))))"

text \<open>
  An element whose layout the sources at hand do not declare (\<^verbatim>\<open>Reloc\<close>, \<^verbatim>\<open>SyncptIncr\<close>,
  \<^verbatim>\<open>Fence\<close>) is kept as the bytes it occupies: the code only copies such elements.
\<close>

definition load_raw :: "nat \<Rightarrow> u8 list \<Rightarrow> nat \<Rightarrow> u8 list" where
  "load_raw sz bs off = take sz (drop off bs)"

definition store_raw :: "u8 list \<Rightarrow> u8 list" where
  "store_raw bs = bs"

subsection \<open>The ioctl records\<close>

text \<open>
  Modelled from the spec: the records of nvhost\_nvdec\_common.h, which is not part of the
  sources at hand. The spec's table of binary records gives their fields, each a
  \<^verbatim>\<open>u32\<close>, in this order and without padding.
\<close>

record IoctlSubmit =
  cmd_buffer_count :: u32
  relocation_count :: u32
  syncpoint_count :: u32
  fence_count :: u32

definition sizeof_IoctlSubmit :: nat where
  "sizeof_IoctlSubmit = 16"

definition load_IoctlSubmit :: "u8 list \<Rightarrow> IoctlSubmit" where
  "load_IoctlSubmit bs =
     \<lparr>cmd_buffer_count = load_u32 bs 0, relocation_count = load_u32 bs 4,
      syncpoint_count = load_u32 bs 8, fence_count = load_u32 bs 12\<rparr>"

definition store_IoctlSubmit :: "IoctlSubmit \<Rightarrow> u8 list" where
  "store_IoctlSubmit p =
     store_u32 (cmd_buffer_count p) @ store_u32 (relocation_count p)
       @ store_u32 (syncpoint_count p) @ store_u32 (fence_count p)"

record CommandBuffer =
  memory_id :: u32
  offset :: u32
  word_count :: u32

definition sizeof_CommandBuffer :: nat where
  "sizeof_CommandBuffer = 12"

definition load_CommandBuffer :: "u8 list \<Rightarrow> nat \<Rightarrow> CommandBuffer" where
  "load_CommandBuffer bs off =
     \<lparr>memory_id = load_u32 bs off, offset = load_u32 bs (off + 4),
      word_count = load_u32 bs (off + 8)\<rparr>"

definition store_CommandBuffer :: "CommandBuffer \<Rightarrow> u8 list" where
  "store_CommandBuffer c =
     store_u32 (memory_id c) @ store_u32 (offset c) @ store_u32 (word_count c)"

text \<open>\<^verbatim>\<open>IoctlGetSyncpoint\<close> and \<^verbatim>\<open>IoctlGetWaitbase\<close> have the same two fields.\<close>

record IoctlGetSyncpoint =
  param :: u32
  "value" :: u32

definition sizeof_IoctlGetSyncpoint :: nat where
  "sizeof_IoctlGetSyncpoint = 8"

definition load_IoctlGetSyncpoint :: "u8 list \<Rightarrow> IoctlGetSyncpoint" where
  "load_IoctlGetSyncpoint bs = \<lparr>param = load_u32 bs 0, value = load_u32 bs 4\<rparr>"

definition store_IoctlGetSyncpoint :: "IoctlGetSyncpoint \<Rightarrow> u8 list" where
  "store_IoctlGetSyncpoint p = store_u32 (param p) @ store_u32 (value p)"

record IoctlMapBuffer =
  num_entries :: u32

definition sizeof_IoctlMapBuffer :: nat where
  "sizeof_IoctlMapBuffer = 4"

definition load_IoctlMapBuffer :: "u8 list \<Rightarrow> IoctlMapBuffer" where
  "load_IoctlMapBuffer bs = \<lparr>num_entries = load_u32 bs 0\<rparr>"

definition store_IoctlMapBuffer :: "IoctlMapBuffer \<Rightarrow> u8 list" where
  "store_IoctlMapBuffer p = store_u32 (num_entries p)"

record MapBufferEntry =
  map_handle :: u32
  map_address :: u32

definition sizeof_MapBufferEntry :: nat where
  "sizeof_MapBufferEntry = 8"

definition load_MapBufferEntry :: "u8 list \<Rightarrow> nat \<Rightarrow> MapBufferEntry" where
  "load_MapBufferEntry bs off =
     \<lparr>map_handle = load_u32 bs off, map_address = load_u32 bs (off + 4)\<rparr>"

definition store_MapBufferEntry :: "MapBufferEntry \<Rightarrow> u8 list" where
  "store_MapBufferEntry e = store_u32 (map_handle e) @ store_u32 (map_address e)"

text \<open>
  What the platform decides and the sources at hand do not show. The element sizes the
  spec does not give: \<^verbatim>\<open>sizeof(Reloc)\<close>, \<^verbatim>\<open>sizeof(SyncptIncr)\<close> and \<^verbatim>\<open>sizeof(Fence)\<close>. And
  whether the storage of a vector can be allocated: \<open>allocates live n\<close> says whether \<open>n\<close>
  bytes are granted while the vectors of the call constructed before, with the byte
  sizes \<open>live\<close>, are alive.
\<close>

record platform =
  sizeof_Reloc :: nat
  sizeof_SyncptIncr :: nat
  sizeof_Fence :: nat
  allocates :: "nat list \<Rightarrow> nat \<Rightarrow> bool"

text \<open>
  The construction of a \<^verbatim>\<open>std::vector\<close> of \<open>n\<close> bytes in all: a vector without
  elements allocates nothing; otherwise the storage is allocated or \<^verbatim>\<open>std::bad_alloc\<close>
  is thrown. The result is the sizes of the vectors alive afterwards.
\<close>

definition vector_alloc :: "platform \<Rightarrow> nat list \<Rightarrow> nat \<Rightarrow> error + nat list" where
  "vector_alloc L live n =
     (if n = 0 then Inr live
      else if allocates L live n then Inr (live @ [n]) else Inl BadAlloc)"

text \<open>The construction of several vectors, one after the other.\<close>

fun construct_vectors :: "platform \<Rightarrow> nat list \<Rightarrow> nat list \<Rightarrow> error + nat list" where
  "construct_vectors L live [] = Inr live"
| "construct_vectors L live (n # ns) =
     (case vector_alloc L live n of
        Inl e \<Rightarrow> Inl e
      | Inr live' \<Rightarrow> construct_vectors L live' ns)"

text \<open>
  \<^verbatim>\<open>std::memcpy(&params, input.data(), n)\<close> for a record of \<open>n\<close> bytes: reads the first
  \<open>n\<close> bytes of \<open>input\<close>.
\<close>

definition read_params :: "nat \<Rightarrow> (u8 list \<Rightarrow> 'a) \<Rightarrow> u8 list \<Rightarrow> error + 'a" where
  "read_params n load input = (if n \<le> length input then Inr (load input) else Inl OutOfBoundsRead)"

subsection \<open>The buffer address map\<close>

text \<open>
  Modelled from the spec: the class \<^verbatim>\<open>BufferMap\<close> of nvhost\_nvdec\_common.h, which is not
  part of the sources at hand. The spec gives an entry as (device address, size, cpu
  address, is\_allocated), the arguments of the constructor call in \<^verbatim>\<open>AddBufferMap\<close>, with
  the range \<open>[start, start + size)\<close>; addresses and sizes are 64-bit and wrap.
\<close>

record BufferMap =
  start_addr :: u64
  map_size :: u64
  cpu_addr :: u64
  is_allocated :: bool

definition StartAddr :: "BufferMap \<Rightarrow> u64" where
  "StartAddr b = start_addr b"

definition EndAddr :: "BufferMap \<Rightarrow> u64" where
  "EndAddr b = start_addr b + map_size b"

definition Size :: "BufferMap \<Rightarrow> u64" where
  "Size b = map_size b"

definition IsAllocated :: "BufferMap \<Rightarrow> bool" where
  "IsAllocated b = is_allocated b"

text \<open>
  \<^verbatim>\<open>std::map<GPUVAddr, BufferMap>\<close>: the entries in increasing key order, each key once.
  An iterator is a position in the list; \<open>end()\<close> is the length.
\<close>

type_synonym buffer_map = "(u64 \<times> BufferMap) list"

text \<open>\<^verbatim>\<open>std::find_if\<close> on a range: the position of the first element satisfying \<open>P\<close>,
  or the end of the range when there is none.\<close>

fun find_if :: "('a \<Rightarrow> bool) \<Rightarrow> 'a list \<Rightarrow> nat" where
  "find_if P [] = 0"
| "find_if P (x # xs) = (if P x then 0 else Suc (find_if P xs))"

text \<open>\<^verbatim>\<open>upper_bound(k)\<close>: the position of the first entry whose key is greater than \<open>k\<close>.\<close>

definition upper_bound :: "buffer_map \<Rightarrow> u64 \<Rightarrow> nat" where
  "upper_bound m k = find_if (\<lambda>entry. k < fst entry) m"

text \<open>\<^verbatim>\<open>find(k)\<close>, as the entry found or none.\<close>

definition map_find :: "buffer_map \<Rightarrow> u64 \<Rightarrow> BufferMap option" where
  "map_find m k = map_of m k"

text \<open>\<^verbatim>\<open>insert_or_assign(k, v)\<close>: overwrites the entry at \<open>k\<close> or inserts in key order.\<close>

fun insert_or_assign :: "u64 \<Rightarrow> BufferMap \<Rightarrow> buffer_map \<Rightarrow> buffer_map" where
  "insert_or_assign k v [] = [(k, v)]"
| "insert_or_assign k v ((k', v') # m) =
     (if k < k' then (k, v) # (k', v') # m
      else if k = k' then (k, v) # m
      else (k', v') # insert_or_assign k v m)"

text \<open>\<^verbatim>\<open>erase(iter)\<close> for the iterator that \<^verbatim>\<open>find(k)\<close> returned: removes that entry.\<close>

fun erase :: "u64 \<Rightarrow> buffer_map \<Rightarrow> buffer_map" where
  "erase k [] = []"
| "erase k ((k', v') # m) = (if k = k' then m else (k', v') # erase k m)"

text \<open>
  \<^verbatim>\<open>FindBufferMap\<close>: \<^verbatim>\<open>find_if\<close> from \<open>begin()\<close> to \<open>upper_bound(gpu_addr)\<close> for an entry
  whose range holds \<open>gpu_addr\<close>. When there is none, \<^verbatim>\<open>find_if\<close> returns the end of the
  range it was given, which is \<open>upper_bound(gpu_addr)\<close>, and the function goes on to
  compare that with \<open>end()\<close> and to return the entry there. The result type is
  \<^verbatim>\<open>std::optional<BufferMap>\<close>.
\<close>

definition FindBufferMap :: "buffer_map \<Rightarrow> u64 \<Rightarrow> error + BufferMap option" where
  "FindBufferMap mappings gpu_addr =
     (let it = find_if (\<lambda>entry. gpu_addr \<ge> StartAddr (snd entry) \<and> gpu_addr < EndAddr (snd entry))
                 (take (upper_bound mappings gpu_addr) mappings)
      in if it = length mappings then Inl AssertionFailed
         else Inr (Some (snd (mappings ! it))))"

definition AddBufferMap :: "buffer_map \<Rightarrow> u64 \<Rightarrow> u64 \<Rightarrow> u64 \<Rightarrow> bool \<Rightarrow> buffer_map" where
  "AddBufferMap mappings gpu_addr sz cpu is_alloc =
     insert_or_assign gpu_addr
       \<lparr>start_addr = gpu_addr, map_size = sz, cpu_addr = cpu, is_allocated = is_alloc\<rparr>
       mappings"

definition RemoveBufferMap :: "buffer_map \<Rightarrow> u64 \<Rightarrow> u64 option \<times> buffer_map" where
  "RemoveBufferMap mappings gpu_addr =
     (case map_find mappings gpu_addr of
        None \<Rightarrow> (None, mappings)
      | Some entry \<Rightarrow>
          (Some (if IsAllocated entry then Size entry else 0), erase gpu_addr mappings))"

text \<open>The well-formedness of the ordered map, and of the entries the device stores in it.\<close>

definition map_ordered :: "buffer_map \<Rightarrow> bool" where
  "map_ordered m = sorted_wrt (<) (map fst m)"

definition entries_keyed :: "buffer_map \<Rightarrow> bool" where
  "entries_keyed m = list_all (\<lambda>(k, b). StartAddr b = k \<and> EndAddr b = StartAddr b + Size b) m"

definition buffer_map_inv :: "buffer_map \<Rightarrow> bool" where
  "buffer_map_inv m = (map_ordered m \<and> entries_keyed m)"

text \<open>Whether the range of an entry holds an address, as \<^verbatim>\<open>FindBufferMap\<close> tests it.\<close>

definition in_range :: "BufferMap \<Rightarrow> u64 \<Rightarrow> bool" where
  "in_range b x = (x \<ge> StartAddr b \<and> x < EndAddr b)"

subsection \<open>Memory objects, the GPU interface and the session state\<close>

text \<open>
  Modelled from the spec: the memory objects of nvmap.h, which is not part of the sources
  at hand. \<^verbatim>\<open>GetObject\<close> returns a shared pointer or null; an object has a cpu address, a
  size, a device-mapping address (0 when unmapped; 32-bit, as the cast in \<^verbatim>\<open>MapBuffer\<close>
  shows) and an allocation status. Objects live in a store indexed by pointers, so that
  two handles may name one object.
\<close>

datatype Status = Free | Allocated

record Object =
  addr :: u64
  size_bytes :: u64
  dma_map_addr :: u32
  status :: Status

text \<open>
  The calls into the GPU, in the order they are made. What \<^verbatim>\<open>MapAllocate32\<close> returns and
  what \<^verbatim>\<open>ReadBlock\<close> reads belong to the GPU memory manager, which is outside this file:
  they are parameters, and may depend on the calls made so far.
\<close>

datatype gpu_call =
    MapAllocate32 u64 u64
  | Unmap u64 u64
  | ReadBlock u64 nat
  | PushCommandBuffer "u32 list"

text \<open>
  \<^verbatim>\<open>ReadBlock\<close> is called with an address and a number of bytes; \<open>ReadBlock_result\<close> is
  the words it leaves in the destination.
\<close>

record gpu =
  MapAllocate32_result :: "gpu_call list \<Rightarrow> u64 \<Rightarrow> u64 \<Rightarrow> u64"
  ReadBlock_result :: "gpu_call list \<Rightarrow> u64 \<Rightarrow> nat \<Rightarrow> u32 list"

record state =
  nvmap_fd :: u32
  submit_timeout :: "u8 list"
  buffer_mappings :: buffer_map
  handles :: "u32 \<rightharpoonup> nat"
  objects :: "nat \<Rightarrow> Object"
  gpu_calls :: "gpu_call list"

definition GetObject :: "state \<Rightarrow> u32 \<Rightarrow> nat option" where
  "GetObject s handle = handles s handle"

definition call_gpu :: "gpu_call \<Rightarrow> state \<Rightarrow> state" where
  "call_gpu c s = s\<lparr>gpu_calls := gpu_calls s @ [c]\<rparr>"

definition set_dma_map_addr :: "nat \<Rightarrow> u32 \<Rightarrow> state \<Rightarrow> state" where
  "set_dma_map_addr object a s =
     s\<lparr>objects := (objects s)(object := (objects s object)\<lparr>dma_map_addr := a\<rparr>)\<rparr>"

subsection \<open>SetNVMAPfd, GetSyncpoint, GetWaitbase, SetSubmitTimeout\<close>

text \<open>\<^verbatim>\<open>IoctlSetNvmapFD\<close> is one \<^verbatim>\<open>u32\<close>.\<close>

definition SetNVMAPfd :: "state \<Rightarrow> u8 list \<Rightarrow> error + (u32 \<times> state)" where
  "SetNVMAPfd s input =
     (case read_params 4 (\<lambda>bs. load_u32 bs 0) input of
        Inl e \<Rightarrow> Inl e
      | Inr fd \<Rightarrow> Inr (0, s\<lparr>nvmap_fd := fd\<rparr>))"

definition GetSyncpoint :: "u8 list \<Rightarrow> u8 list \<Rightarrow> error + (u32 \<times> u8 list)" where
  "GetSyncpoint input output =
     (case read_params sizeof_IoctlGetSyncpoint load_IoctlGetSyncpoint input of
        Inl e \<Rightarrow> Inl e
      | Inr params \<Rightarrow>
          (case memcpy_to output 0 (store_IoctlGetSyncpoint (params\<lparr>value := 0\<rparr>)) of
             Inl e \<Rightarrow> Inl e
           | Inr output' \<Rightarrow> Inr (Success, output')))"

definition GetWaitbase :: "u8 list \<Rightarrow> u8 list \<Rightarrow> error + (u32 \<times> u8 list)" where
  "GetWaitbase input output =
     (case read_params sizeof_IoctlGetSyncpoint load_IoctlGetSyncpoint input of
        Inl e \<Rightarrow> Inl e
      | Inr params \<Rightarrow>
          (case memcpy_to output 0 (store_IoctlGetSyncpoint (params\<lparr>value := 0\<rparr>)) of
             Inl e \<Rightarrow> Inl e
           | Inr output' \<Rightarrow> Inr (0, output')))"

text \<open>
  \<^verbatim>\<open>std::memcpy(&submit_timeout, input.data(), input.size())\<close>: the field is kept as the
  bytes it occupies, and the copy overwrites its first \<open>input.size()\<close> bytes.
\<close>

definition SetSubmitTimeout :: "state \<Rightarrow> u8 list \<Rightarrow> error + (u32 \<times> state)" where
  "SetSubmitTimeout s input =
     (case memcpy_to (submit_timeout s) 0 input of
        Inl e \<Rightarrow> Inl e
      | Inr bytes \<Rightarrow> Inr (Success, s\<lparr>submit_timeout := bytes\<rparr>))"

subsection \<open>Submit\<close>

record submit_vectors =
  command_buffers :: "CommandBuffer list"
  relocs :: "u8 list list"
  reloc_shifts :: "u32 list"
  syncpt_increments :: "u8 list list"
  wait_checks :: "u8 list list"
  fences :: "u8 list list"

text \<open>
  The six vectors that \<^verbatim>\<open>Submit\<close> constructs, in this order, after it has copied the
  header and before it copies anything else: their sizes in bytes.
\<close>

definition Submit_vector_sizes :: "platform \<Rightarrow> IoctlSubmit \<Rightarrow> nat list" where
  "Submit_vector_sizes L params =
     [unat (cmd_buffer_count params) * sizeof_CommandBuffer,
      unat (relocation_count params) * sizeof_Reloc L,
      unat (relocation_count params) * 4,
      unat (syncpoint_count params) * sizeof_SyncptIncr L,
      unat (syncpoint_count params) * sizeof_SyncptIncr L,
      unat (fence_count params) * sizeof_Fence L]"

text \<open>
  The six calls of \<^verbatim>\<open>SpliceVectors\<close>, each starting where the one before ended. They
  run once the six vectors are constructed.
\<close>

definition Submit_splice :: "platform \<Rightarrow> u8 list \<Rightarrow> IoctlSubmit \<Rightarrow> error + submit_vectors" where
  "Submit_splice L input params =
     (case SpliceVectors sizeof_CommandBuffer load_CommandBuffer input
             (unat (cmd_buffer_count params)) sizeof_IoctlSubmit of
        Inl e \<Rightarrow> Inl e
      | Inr (cbs, off1) \<Rightarrow>
     (case SpliceVectors (sizeof_Reloc L) (load_raw (sizeof_Reloc L)) input
             (unat (relocation_count params)) off1 of
        Inl e \<Rightarrow> Inl e
      | Inr (rs, off2) \<Rightarrow>
     (case SpliceVectors 4 load_u32 input (unat (relocation_count params)) off2 of
        Inl e \<Rightarrow> Inl e
      | Inr (shs, off3) \<Rightarrow>
     (case SpliceVectors (sizeof_SyncptIncr L) (load_raw (sizeof_SyncptIncr L)) input
             (unat (syncpoint_count params)) off3 of
        Inl e \<Rightarrow> Inl e
      | Inr (incs, off4) \<Rightarrow>
     (case SpliceVectors (sizeof_SyncptIncr L) (load_raw (sizeof_SyncptIncr L)) input
             (unat (syncpoint_count params)) off4 of
        Inl e \<Rightarrow> Inl e
      | Inr (wcs, off5) \<Rightarrow>
     (case SpliceVectors (sizeof_Fence L) (load_raw (sizeof_Fence L)) input
             (unat (fence_count params)) off5 of
        Inl e \<Rightarrow> Inl e
      | Inr (fs, off6) \<Rightarrow>
          Inr \<lparr>command_buffers = cbs, relocs = rs, reloc_shifts = shs,
               syncpt_increments = incs, wait_checks = wcs, fences = fs\<rparr>))))))"

text \<open>
  The loop over the command buffers; \<open>live\<close> is the sizes of the six vectors, which are
  alive throughout. The result is the state and, when the loop left the function early,
  the status it returned. Modelled from the spec: the macro \<^verbatim>\<open>ASSERT_OR_EXECUTE\<close>
  (common/assert.h, absent) runs \<^verbatim>\<open>return NvErrCodes::InvalidInput\<close> for a handle without
  object. The branch for a lookup without result returns 0 at once. Otherwise the round
  constructs \<open>cmdlist\<close> with \<open>word_count\<close> words, has \<^verbatim>\<open>ReadBlock\<close> fill its
  \<open>cmdlist.size() * sizeof(u32)\<close> bytes and pushes it; \<open>cmdlist\<close> is gone when the round
  ends.
\<close>

fun Submit_loop ::
  "platform \<Rightarrow> gpu \<Rightarrow> nat list \<Rightarrow> state \<Rightarrow> CommandBuffer list \<Rightarrow> error + (state \<times> u32 option)" where
  "Submit_loop L g live s [] = Inr (s, None)"
| "Submit_loop L g live s (cmd_buffer # rest) =
     (case GetObject s (memory_id cmd_buffer) of
        None \<Rightarrow> Inr (s, Some InvalidInput)
      | Some object \<Rightarrow>
          (case FindBufferMap (buffer_mappings s) (ucast (dma_map_addr (objects s object))) of
             Inl e \<Rightarrow> Inl e
           | Inr None \<Rightarrow> Inr (s, Some 0)
           | Inr (Some m) \<Rightarrow>
               (case vector_alloc L live (unat (word_count cmd_buffer) * 4) of
                  Inl e \<Rightarrow> Inl e
                | Inr live' \<Rightarrow>
                    (let a = StartAddr m + ucast (offset cmd_buffer);
                         n = unat (word_count cmd_buffer) * 4;
                         cmdlist = ReadBlock_result g (gpu_calls s) a n
                     in Submit_loop L g live
                          (call_gpu (PushCommandBuffer cmdlist) (call_gpu (ReadBlock a n) s))
                          rest))))"

text \<open>The write-back: the header and five vectors; \<open>fences\<close> is not among them.\<close>

definition Submit_write :: "IoctlSubmit \<Rightarrow> submit_vectors \<Rightarrow> u8 list \<Rightarrow> error + u8 list" where
  "Submit_write params v output =
     (case memcpy_to output 0 (store_IoctlSubmit params) of
        Inl e \<Rightarrow> Inl e
      | Inr out0 \<Rightarrow>
     (case WriteVectors store_CommandBuffer out0 (command_buffers v) sizeof_IoctlSubmit of
        Inl e \<Rightarrow> Inl e
      | Inr (out1, off1) \<Rightarrow>
     (case WriteVectors store_raw out1 (relocs v) off1 of
        Inl e \<Rightarrow> Inl e
      | Inr (out2, off2) \<Rightarrow>
     (case WriteVectors store_u32 out2 (reloc_shifts v) off2 of
        Inl e \<Rightarrow> Inl e
      | Inr (out3, off3) \<Rightarrow>
     (case WriteVectors store_raw out3 (syncpt_increments v) off3 of
        Inl e \<Rightarrow> Inl e
      | Inr (out4, off4) \<Rightarrow>
     (case WriteVectors store_raw out4 (wait_checks v) off4 of
        Inl e \<Rightarrow> Inl e
      | Inr (out5, off5) \<Rightarrow> Inr out5))))))"

definition Submit ::
  "platform \<Rightarrow> gpu \<Rightarrow> state \<Rightarrow> u8 list \<Rightarrow> u8 list \<Rightarrow> error + (u32 \<times> state \<times> u8 list)" where
  "Submit L g s input output =
     (case read_params sizeof_IoctlSubmit load_IoctlSubmit input of
        Inl e \<Rightarrow> Inl e
      | Inr params \<Rightarrow>
     (case construct_vectors L [] (Submit_vector_sizes L params) of
        Inl e \<Rightarrow> Inl e
      | Inr live \<Rightarrow>
     (case Submit_splice L input params of
        Inl e \<Rightarrow> Inl e
      | Inr v \<Rightarrow>
     (case Submit_loop L g live s (command_buffers v) of
        Inl e \<Rightarrow> Inl e
      | Inr (s', Some st) \<Rightarrow> Inr (st, s', output)
      | Inr (s', None) \<Rightarrow>
          (case Submit_write params v output of
             Inl e \<Rightarrow> Inl e
           | Inr output' \<Rightarrow> Inr (Success, s', output'))))))"

subsection \<open>MapBuffer and UnmapBuffer\<close>

text \<open>
  \<^verbatim>\<open>std::memcpy(output.data(), &params, output.size())\<close> on the path of an invalid handle:
  it copies \<open>output.size()\<close> bytes out of \<open>params\<close>, an object of
  \<open>sizeof(IoctlMapBuffer)\<close> bytes.
\<close>

definition copy_params_to_output :: "IoctlMapBuffer \<Rightarrow> u8 list \<Rightarrow> error + u8 list" where
  "copy_params_to_output params output =
     (if length output \<le> sizeof_IoctlMapBuffer
      then memcpy_to output 0 (take (length output) (store_IoctlMapBuffer params))
      else Inl OutOfBoundsRead)"

text \<open>
  One round of the loop of \<^verbatim>\<open>MapBuffer\<close>: the state afterwards and the entry as the
  round leaves it, or no entry when the handle has no object and the function returns.
\<close>

definition MapBuffer_entry ::
  "gpu \<Rightarrow> state \<Rightarrow> MapBufferEntry \<Rightarrow> error + (state \<times> MapBufferEntry option)" where
  "MapBuffer_entry g s cmf_buff =
     (case GetObject s (map_handle cmf_buff) of
        None \<Rightarrow> Inr (s, None)
      | Some object \<Rightarrow>
          (case (if dma_map_addr (objects s object) = 0
                 then (let low_addr = MapAllocate32_result g (gpu_calls s)
                                        (addr (objects s object)) (size_bytes (objects s object));
                           s1 = set_dma_map_addr object (ucast low_addr)
                                  (call_gpu (MapAllocate32 (addr (objects s object))
                                     (size_bytes (objects s object))) s)
                       in if ucast (dma_map_addr (objects s1 object)) = low_addr
                          then Inr s1 else Inl AssertionFailed)
                 else Inr s) of
             Inl e \<Rightarrow> Inl e
           | Inr s1 \<Rightarrow>
               (if dma_map_addr (objects s1 object) = 0 then Inr (s1, Some cmf_buff)
                else Inr (s1\<lparr>buffer_mappings :=
                              AddBufferMap (buffer_mappings s1)
                                (ucast (dma_map_addr (objects s1 object)))
                                (size_bytes (objects s1 object)) (addr (objects s1 object))
                                (status (objects s1 object) = Allocated)\<rparr>,
                          Some (cmf_buff\<lparr>map_address := dma_map_addr (objects s1 object)\<rparr>)))))"

fun MapBuffer_loop ::
  "gpu \<Rightarrow> state \<Rightarrow> MapBufferEntry list \<Rightarrow> error + (state \<times> MapBufferEntry list option)" where
  "MapBuffer_loop g s [] = Inr (s, Some [])"
| "MapBuffer_loop g s (cmf_buff # rest) =
     (case MapBuffer_entry g s cmf_buff of
        Inl e \<Rightarrow> Inl e
      | Inr (s1, None) \<Rightarrow> Inr (s1, None)
      | Inr (s1, Some cmf_buff') \<Rightarrow>
          (case MapBuffer_loop g s1 rest of
             Inl e \<Rightarrow> Inl e
           | Inr (s2, None) \<Rightarrow> Inr (s2, None)
           | Inr (s2, Some rest') \<Rightarrow> Inr (s2, Some (cmf_buff' # rest'))))"

definition MapBuffer ::
  "gpu \<Rightarrow> state \<Rightarrow> u8 list \<Rightarrow> u8 list \<Rightarrow> error + (u32 \<times> state \<times> u8 list)" where
  "MapBuffer g s input output =
     (case read_params sizeof_IoctlMapBuffer load_IoctlMapBuffer input of
        Inl e \<Rightarrow> Inl e
      | Inr params \<Rightarrow>
     (case SpliceVectors sizeof_MapBufferEntry load_MapBufferEntry input
             (unat (num_entries params)) sizeof_IoctlMapBuffer of
        Inl e \<Rightarrow> Inl e
      | Inr (cmd_buffer_handles, off) \<Rightarrow>
     (case MapBuffer_loop g s cmd_buffer_handles of
        Inl e \<Rightarrow> Inl e
      | Inr (s', None) \<Rightarrow>
          (case copy_params_to_output params output of
             Inl e \<Rightarrow> Inl e
           | Inr output' \<Rightarrow> Inr (InvalidInput, s', output'))
      | Inr (s', Some cmd_buffer_handles') \<Rightarrow>
          (case memcpy_to output 0 (store_IoctlMapBuffer params) of
             Inl e \<Rightarrow> Inl e
           | Inr out0 \<Rightarrow>
          (case memcpy_to out0 sizeof_IoctlMapBuffer
                  (concat (map store_MapBufferEntry cmd_buffer_handles')) of
             Inl e \<Rightarrow> Inl e
           | Inr out1 \<Rightarrow> Inr (Success, s', out1))))))"

text \<open>
  One round of the loop of \<^verbatim>\<open>UnmapBuffer\<close>: the state afterwards, or nothing when the
  handle has no object. \<^verbatim>\<open>Unmap\<close> is called whenever \<^verbatim>\<open>RemoveBufferMap\<close> returned a
  value, also the value 0.
\<close>

definition UnmapBuffer_entry :: "state \<Rightarrow> MapBufferEntry \<Rightarrow> state option" where
  "UnmapBuffer_entry s cmf_buff =
     (case GetObject s (map_handle cmf_buff) of
        None \<Rightarrow> None
      | Some object \<Rightarrow>
          (let a = ucast (dma_map_addr (objects s object));
               (sz, mappings') = RemoveBufferMap (buffer_mappings s) a;
               s1 = s\<lparr>buffer_mappings := mappings'\<rparr>;
               s2 = (case sz of None \<Rightarrow> s1 | Some n \<Rightarrow> call_gpu (Unmap a n) s1)
           in Some (set_dma_map_addr object 0 s2)))"

fun UnmapBuffer_loop :: "state \<Rightarrow> MapBufferEntry list \<Rightarrow> state \<times> bool" where
  "UnmapBuffer_loop s [] = (s, True)"
| "UnmapBuffer_loop s (cmf_buff # rest) =
     (case UnmapBuffer_entry s cmf_buff of
        None \<Rightarrow> (s, False)
      | Some s1 \<Rightarrow> UnmapBuffer_loop s1 rest)"

definition UnmapBuffer :: "state \<Rightarrow> u8 list \<Rightarrow> u8 list \<Rightarrow> error + (u32 \<times> state \<times> u8 list)" where
  "UnmapBuffer s input output =
     (case read_params sizeof_IoctlMapBuffer load_IoctlMapBuffer input of
        Inl e \<Rightarrow> Inl e
      | Inr params \<Rightarrow>
     (case SpliceVectors sizeof_MapBufferEntry load_MapBufferEntry input
             (unat (num_entries params)) sizeof_IoctlMapBuffer of
        Inl e \<Rightarrow> Inl e
      | Inr (cmd_buffer_handles, off) \<Rightarrow>
     (case UnmapBuffer_loop s cmd_buffer_handles of
        (s', False) \<Rightarrow>
          (case copy_params_to_output params output of
             Inl e \<Rightarrow> Inl e
           | Inr output' \<Rightarrow> Inr (InvalidInput, s', output'))
      | (s', True) \<Rightarrow> Inr (Success, s', replicate (length output) 0))))"

subsection \<open>What a request holds\<close>

text \<open>
  The number of input bytes the decode of \<^verbatim>\<open>Submit\<close> copies: the header and the six
  vectors, each with its count from the header. The write-back covers the header and the
  first five vectors; the vector of fences is left out.
\<close>

definition Submit_input_size :: "platform \<Rightarrow> IoctlSubmit \<Rightarrow> nat" where
  "Submit_input_size L params =
     sizeof_IoctlSubmit + unat (cmd_buffer_count params) * sizeof_CommandBuffer
       + unat (relocation_count params) * sizeof_Reloc L + unat (relocation_count params) * 4
       + unat (syncpoint_count params) * sizeof_SyncptIncr L
       + unat (syncpoint_count params) * sizeof_SyncptIncr L
       + unat (fence_count params) * sizeof_Fence L"

definition Submit_output_size :: "platform \<Rightarrow> IoctlSubmit \<Rightarrow> nat" where
  "Submit_output_size L params =
     sizeof_IoctlSubmit + unat (cmd_buffer_count params) * sizeof_CommandBuffer
       + unat (relocation_count params) * sizeof_Reloc L + unat (relocation_count params) * 4
       + unat (syncpoint_count params) * sizeof_SyncptIncr L
       + unat (syncpoint_count params) * sizeof_SyncptIncr L"

text \<open>Whether the six vectors of \<^verbatim>\<open>Submit\<close> are constructed, none throwing.\<close>

definition vectors_constructed :: "platform \<Rightarrow> IoctlSubmit \<Rightarrow> bool" where
  "vectors_constructed L params =
     (case construct_vectors L [] (Submit_vector_sizes L params) of
        Inl e \<Rightarrow> False
      | Inr live \<Rightarrow> True)"

text \<open>The command buffer descriptors of a submit request, as \<^verbatim>\<open>SpliceVectors\<close> decodes them.\<close>

definition request_command_buffers :: "u8 list \<Rightarrow> CommandBuffer list" where
  "request_command_buffers input =
     map (\<lambda>i. load_CommandBuffer input (sizeof_IoctlSubmit + i * sizeof_CommandBuffer))
       [0..<unat (cmd_buffer_count (load_IoctlSubmit input))]"

text \<open>The size and the entries of a request of \<^verbatim>\<open>MapBuffer\<close> or \<^verbatim>\<open>UnmapBuffer\<close>.\<close>

definition request_size :: "u8 list \<Rightarrow> nat" where
  "request_size input =
     sizeof_IoctlMapBuffer + unat (num_entries (load_IoctlMapBuffer input)) * sizeof_MapBufferEntry"

definition request_entries :: "u8 list \<Rightarrow> MapBufferEntry list" where
  "request_entries input =
     map (\<lambda>i. load_MapBufferEntry input (sizeof_IoctlMapBuffer + i * sizeof_MapBufferEntry))
       [0..<unat (num_entries (load_IoctlMapBuffer input))]"

text \<open>An entry with the device-mapping address of its handle's object written into it.\<close>

definition reported_entry :: "state \<Rightarrow> MapBufferEntry \<Rightarrow> MapBufferEntry" where
  "reported_entry s e =
     (case GetObject s (map_handle e) of
        None \<Rightarrow> e
      | Some object \<Rightarrow> e\<lparr>map_address := dma_map_addr (objects s object)\<rparr>)"

text \<open>Whether a call into the GPU pushes a command list.\<close>

fun is_push :: "gpu_call \<Rightarrow> bool" where
  "is_push (PushCommandBuffer ws) = True"
| "is_push c = False"

text \<open>Whether a vector of \<open>n\<close> bytes is constructed while the vectors \<open>live\<close> are alive.\<close>

definition granted :: "platform \<Rightarrow> nat list \<Rightarrow> nat \<Rightarrow> bool" where
  "granted L live n = (n = 0 \<or> allocates L live n)"

text \<open>
  The calls to the GPU that forward slices of GPU memory, each given by its address and
  its number of words, after the calls \<open>before\<close>: for each slice in turn a \<^verbatim>\<open>ReadBlock\<close> of
  four bytes a word at the address, and the push of the words read.
\<close>

fun forwarded :: "gpu \<Rightarrow> gpu_call list \<Rightarrow> (u64 \<times> nat) list \<Rightarrow> gpu_call list" where
  "forwarded g before [] = []"
| "forwarded g before ((a, n) # slices) =
     ReadBlock a (n * 4) # PushCommandBuffer (ReadBlock_result g before a (n * 4))
       # forwarded g
           (before @ [ReadBlock a (n * 4), PushCommandBuffer (ReadBlock_result g before a (n * 4))])
           slices"

subsection \<open>Concrete sessions\<close>

text \<open>Two mappings, \<open>[0x1000, 0x1100)\<close> and \<open>[0x2000, 0x2100)\<close>, and the maps holding them.\<close>

definition b1000 :: BufferMap where
  "b1000 = \<lparr>start_addr = 0x1000, map_size = 0x100, cpu_addr = 0x80000000, is_allocated = True\<rparr>"

definition b2000 :: BufferMap where
  "b2000 = \<lparr>start_addr = 0x2000, map_size = 0x100, cpu_addr = 0x80001000, is_allocated = False\<rparr>"

definition one_mapping :: buffer_map where
  "one_mapping = [(0x1000, b1000)]"

definition two_mappings :: buffer_map where
  "two_mappings = [(0x1000, b1000), (0x2000, b2000)]"

text \<open>
  A session with these two mappings and two memory objects: handle 3 names an object
  mapped at \<open>0x1000\<close>, handle 4 an object that is not mapped; no other handle has an
  object. The GPU of the session allocates at \<open>0x3000\<close> and reads zero words.
\<close>

definition object_mapped :: Object where
  "object_mapped =
     \<lparr>addr = 0x80000000, size_bytes = 0x100, dma_map_addr = 0x1000, status = Allocated\<rparr>"

definition object_unmapped :: Object where
  "object_unmapped =
     \<lparr>addr = 0x80002000, size_bytes = 0x1000, dma_map_addr = 0, status = Allocated\<rparr>"

definition session :: state where
  "session =
     \<lparr>nvmap_fd = 7, submit_timeout = [0, 0, 0, 0], buffer_mappings = two_mappings,
      handles = [3 \<mapsto> 0, 4 \<mapsto> 1],
      objects = (\<lambda>p. if p = 0 then object_mapped else object_unmapped),
      gpu_calls = []\<rparr>"

definition session_gpu :: gpu where
  "session_gpu =
     \<lparr>MapAllocate32_result = (\<lambda>calls a n. 0x3000),
      ReadBlock_result = (\<lambda>calls a n. replicate (n div 4) 0)\<rparr>"

text \<open>The platform of the session grants the vectors of a call \<open>2 ^ 30\<close> bytes in all.\<close>

definition session_platform :: platform where
  "session_platform =
     \<lparr>sizeof_Reloc = 16, sizeof_SyncptIncr = 8, sizeof_Fence = 8,
      allocates = (\<lambda>live n. sum_list live + n \<le> 2 ^ 30)\<rparr>"

text \<open>
  A submit request with one command buffer descriptor (memory id, offset \<open>0x10\<close>, two
  words), one relocation with its shift, one syncpoint increment with its wait check and
  one fence, and the header of a request with one command buffer alone.
\<close>

definition submit_request :: "u8 \<Rightarrow> u8 list" where
  "submit_request memory =
     [1, 0, 0, 0, 1, 0, 0, 0, 1, 0, 0, 0, 1, 0, 0, 0,
      memory, 0, 0, 0, 0x10, 0, 0, 0, 2, 0, 0, 0,
      0x11, 0x12, 0x13, 0x14, 0x15, 0x16, 0x17, 0x18, 0x19, 0x1A, 0x1B, 0x1C, 0x1D, 0x1E, 0x1F, 0x20,
      0x21, 0x22, 0x23, 0x24,
      0x31, 0x32, 0x33, 0x34, 0x35, 0x36, 0x37, 0x38,
      0x41, 0x42, 0x43, 0x44, 0x45, 0x46, 0x47, 0x48,
      0x51, 0x52, 0x53, 0x54, 0x55, 0x56, 0x57, 0x58]"

definition submit_header_only :: "u8 list" where
  "submit_header_only = [1, 0, 0, 0, 0, 0, 0, 0, 0, 0, 0, 0, 0, 0, 0, 0]"

text \<open>The header of a request that announces \<open>0xFFFFFFFF\<close> command buffers.\<close>

definition submit_header_huge :: "u8 list" where
  "submit_header_huge = [0xFF, 0xFF, 0xFF, 0xFF, 0, 0, 0, 0, 0, 0, 0, 0, 0, 0, 0, 0]"

text \<open>A request for \<^verbatim>\<open>MapBuffer\<close> and \<^verbatim>\<open>UnmapBuffer\<close>: one entry, with a handle.\<close>

definition map_request :: "u8 \<Rightarrow> u8 list" where
  "map_request handle = [1, 0, 0, 0, handle, 0, 0, 0, 0, 0, 0, 0]"

section \<open>Properties\<close>

subsection \<open>Bytes and records\<close>

lemma bit_u8_less: "bit (b :: u8) n \<Longrightarrow> n < 8"
  by (auto dest: bit_imp_le_length)

lemma bit_u32_of_bytes:
  "bit (u32_of_bytes b0 b1 b2 b3) n \<longleftrightarrow>
     (if n < 8 then bit b0 n else if n < 16 then bit b1 (n - 8)
      else if n < 24 then bit b2 (n - 16) else bit b3 (n - 24))"
  unfolding u32_of_bytes_def
  by (auto simp add: bit_or_iff bit_push_bit_iff bit_ucast_iff simp del: push_bit_numeral
      dest: bit_u8_less)

lemma store_u32_of_bytes: "store_u32 (u32_of_bytes b0 b1 b2 b3) = [b0, b1, b2, b3]"
proof -
  have "ucast (u32_of_bytes b0 b1 b2 b3) = b0"
    by (rule bit_word_eqI) (simp add: bit_ucast_iff bit_u32_of_bytes)
  moreover have "ucast (drop_bit 8 (u32_of_bytes b0 b1 b2 b3)) = b1"
    by (rule bit_word_eqI) (simp add: bit_ucast_iff bit_drop_bit_eq bit_u32_of_bytes)
  moreover have "ucast (drop_bit 16 (u32_of_bytes b0 b1 b2 b3)) = b2"
    by (rule bit_word_eqI) (simp add: bit_ucast_iff bit_drop_bit_eq bit_u32_of_bytes)
  moreover have "ucast (drop_bit 24 (u32_of_bytes b0 b1 b2 b3)) = b3"
    by (rule bit_word_eqI) (simp add: bit_ucast_iff bit_drop_bit_eq bit_u32_of_bytes)
  ultimately show ?thesis by (simp add: store_u32_def)
qed

lemma length_store_u32: "length (store_u32 w) = 4"
  by (simp add: store_u32_def)

lemma take4_drop:
  "off + 4 \<le> length bs \<Longrightarrow>
     take 4 (drop off bs) = [bs ! off, bs ! (off + 1), bs ! (off + 2), bs ! (off + 3)]"
proof -
  assume a: "off + 4 \<le> length bs"
  then have "drop off bs = bs ! off # drop (Suc off) bs"
    and "drop (Suc off) bs = bs ! (off + 1) # drop (Suc (Suc off)) bs"
    and "drop (Suc (Suc off)) bs = bs ! (off + 2) # drop (Suc (Suc (Suc off))) bs"
    and "drop (Suc (Suc (Suc off))) bs = bs ! (off + 3) # drop (Suc (Suc (Suc (Suc off)))) bs"
    by (simp_all add: Cons_nth_drop_Suc eval_nat_numeral)
  then show ?thesis by (simp add: eval_nat_numeral)
qed

lemma store_load_u32:
  "off + 4 \<le> length bs \<Longrightarrow> store_u32 (load_u32 bs off) = take 4 (drop off bs)"
  by (simp add: load_u32_def store_u32_of_bytes take4_drop)

lemma load_store_u32: "load_u32 (store_u32 w @ rest) 0 = w"
  unfolding load_u32_def store_u32_def
  by (rule bit_word_eqI) (auto simp add: bit_ucast_iff bit_drop_bit_eq bit_u32_of_bytes)

lemma take_add_drop: "take (a + b) (drop off bs) = take a (drop off bs) @ take b (drop (off + a) bs)"
  by (simp add: take_add add.commute)

lemma store_load_CommandBuffer:
  "off + 12 \<le> length bs \<Longrightarrow>
     store_CommandBuffer (load_CommandBuffer bs off) = take 12 (drop off bs)"
proof -
  assume a: "off + 12 \<le> length bs"
  have "take 12 (drop off bs) = take (4 + (4 + 4)) (drop off bs)" by simp
  also have "\<dots> = take 4 (drop off bs) @ take 4 (drop (off + 4) bs) @ take 4 (drop (off + 8) bs)"
    unfolding take_add_drop by (simp add: add.assoc)
  finally show ?thesis using a
    by (simp add: store_CommandBuffer_def load_CommandBuffer_def store_load_u32)
qed

lemma store_load_MapBufferEntry:
  "off + 8 \<le> length bs \<Longrightarrow>
     store_MapBufferEntry (load_MapBufferEntry bs off) = take 8 (drop off bs)"
proof -
  assume a: "off + 8 \<le> length bs"
  have "take 8 (drop off bs) = take (4 + 4) (drop off bs)" by simp
  also have "\<dots> = take 4 (drop off bs) @ take 4 (drop (off + 4) bs)"
    unfolding take_add_drop by simp
  finally show ?thesis using a
    by (simp add: store_MapBufferEntry_def load_MapBufferEntry_def store_load_u32)
qed

lemma store_load_IoctlSubmit:
  "16 \<le> length bs \<Longrightarrow> store_IoctlSubmit (load_IoctlSubmit bs) = take 16 bs"
proof -
  assume a: "16 \<le> length bs"
  have "take 16 bs = take (4 + (4 + (4 + 4))) (drop 0 bs)" by simp
  also have "\<dots> = take 4 (drop 0 bs) @ take 4 (drop 4 bs) @ take 4 (drop 8 bs) @ take 4 (drop 12 bs)"
    unfolding take_add_drop by (simp add: add.assoc)
  finally show ?thesis using a
    by (simp add: store_IoctlSubmit_def load_IoctlSubmit_def store_load_u32)
qed

lemma store_load_raw:
  "store_raw (load_raw sz bs off) = take sz (drop off bs)"
  by (simp add: store_raw_def load_raw_def)

lemma concat_store_load:
  assumes rt: "\<And>off'. off' + sz \<le> length bs \<Longrightarrow> store (load bs off') = take sz (drop off' bs)"
    and len: "off + n * sz \<le> length bs"
  shows "concat (map store (map (\<lambda>i. load bs (off + i * sz)) [0..<n])) = take (n * sz) (drop off bs)"
  using len
proof (induction n)
  case 0
  then show ?case by simp
next
  case (Suc n)
  from Suc.prems have "off + n * sz + sz \<le> length bs" by (simp add: add.commute add.left_commute)
  then have "store (load bs (off + n * sz)) = take sz (drop (off + n * sz) bs)"
    by (rule rt)
  moreover from Suc.prems have "off + n * sz \<le> length bs" by simp
  ultimately show ?case
    using Suc.IH take_add_drop [of "n * sz" sz off bs] by (simp add: add.commute)
qed

subsection \<open>The ordered map and the buffer address map\<close>

lemma map_of_insert_or_assign: "map_of (insert_or_assign k v m) k = Some v"
  by (induction m) auto

lemma map_of_insert_or_assign_other:
  "k' \<noteq> k \<Longrightarrow> map_of (insert_or_assign k v m) k' = map_of m k'"
  by (induction m) auto

lemma keys_insert_or_assign:
  "fst ` set (insert_or_assign k v m) = insert k (fst ` set m)"
proof (induction m)
  case Nil
  then show ?case by simp
next
  case (Cons e m)
  then show ?case by (cases e) (simp add: insert_commute)
qed

lemma sorted_insert_or_assign:
  "sorted_wrt (<) (map fst m) \<Longrightarrow> sorted_wrt (<) (map fst (insert_or_assign k v m))"
proof (induction m)
  case Nil
  then show ?case by simp
next
  case (Cons e m)
  obtain k' v' where e: "e = (k', v')" by (cases e)
  from Cons.prems e have tl: "sorted_wrt (<) (map fst m)" and hd: "\<forall>x\<in>set m. k' < fst x"
    by auto
  show ?case
  proof (cases "k < k'")
    case True
    with hd have "\<forall>x\<in>set m. k < fst x" by fastforce
    with True tl hd e show ?thesis by simp
  next
    case False
    show ?thesis
    proof (cases "k = k'")
      case True
      with tl hd e show ?thesis by simp
    next
      case ne: False
      with False have "k' < k" by simp
      with hd have "\<forall>x\<in>fst ` set (insert_or_assign k v m). k' < x"
        by (auto simp: keys_insert_or_assign)
      with False ne e Cons.IH [OF tl] show ?thesis by simp
    qed
  qed
qed

lemma set_erase: "set (erase k m) \<subseteq> set m"
  by (induction m) (auto split: if_splits)

lemma sorted_erase:
  "sorted_wrt (<) (map fst m) \<Longrightarrow> sorted_wrt (<) (map fst (erase k m))"
proof (induction m)
  case Nil
  then show ?case by simp
next
  case (Cons e m)
  then show ?case using set_erase [of k m] by (cases e) auto
qed

lemma map_of_erase:
  "sorted_wrt (<) (map fst m) \<Longrightarrow> map_of (erase k m) k = None"
proof (induction m)
  case Nil
  then show ?case by simp
next
  case (Cons e m)
  obtain k' v' where e: "e = (k', v')" by (cases e)
  show ?case
  proof (cases "k = k'")
    case True
    with Cons.prems e have "k \<notin> fst ` set m" by auto
    with True e show ?thesis by (simp add: map_of_eq_None_iff)
  next
    case False
    with Cons e show ?thesis by simp
  qed
qed

lemma map_of_erase_other: "k' \<noteq> k \<Longrightarrow> map_of (erase k m) k' = map_of m k'"
  by (induction m) auto

lemma list_all_insert_or_assign:
  "list_all P m \<Longrightarrow> P (k, v) \<Longrightarrow> list_all P (insert_or_assign k v m)"
  by (induction m) auto

lemma list_all_erase: "list_all P m \<Longrightarrow> list_all P (erase k m)"
  by (induction m) auto

lemma buffer_map_inv_AddBufferMap:
  "buffer_map_inv m \<Longrightarrow> buffer_map_inv (AddBufferMap m a sz c b)"
  unfolding buffer_map_inv_def map_ordered_def entries_keyed_def AddBufferMap_def
  by (simp add: sorted_insert_or_assign list_all_insert_or_assign
      StartAddr_def EndAddr_def Size_def)

lemma buffer_map_inv_RemoveBufferMap:
  "buffer_map_inv m \<Longrightarrow> buffer_map_inv (snd (RemoveBufferMap m a))"
  unfolding buffer_map_inv_def map_ordered_def entries_keyed_def RemoveBufferMap_def
  by (simp add: sorted_erase list_all_erase split: option.split)

lemma map_find_AddBufferMap:
  "map_find (AddBufferMap m a sz c b) a =
     Some \<lparr>start_addr = a, map_size = sz, cpu_addr = c, is_allocated = b\<rparr>"
  by (simp add: map_find_def AddBufferMap_def map_of_insert_or_assign)

lemma map_ordered_AddBufferMap: "map_ordered m \<Longrightarrow> map_ordered (AddBufferMap m a sz c b)"
  by (simp add: map_ordered_def AddBufferMap_def sorted_insert_or_assign)

subsection \<open>Insertion followed by removal\<close>

text \<open>
  C7. For every address \<open>A\<close>, size \<open>S\<close>, cpu address \<open>C\<close> and flag \<open>b\<close>: after
  \<^verbatim>\<open>AddBufferMap(A, S, C, b)\<close>, \<^verbatim>\<open>RemoveBufferMap(A)\<close> returns the size \<open>S\<close> when \<open>b\<close>
  is true and the size 0 when it is false, and in both cases the entry at \<open>A\<close> is gone
  afterwards; every other key keeps what it had before the insertion. The map is an
  ordered map, each key once.
\<close>

theorem AddBufferMap_then_RemoveBufferMap:
  assumes "map_ordered m"
  shows "fst (RemoveBufferMap (AddBufferMap m A S C b) A) = Some (if b then S else 0) \<and>
         map_find (snd (RemoveBufferMap (AddBufferMap m A S C b) A)) A = None \<and>
         (\<forall>k. k \<noteq> A \<longrightarrow>
            map_find (snd (RemoveBufferMap (AddBufferMap m A S C b) A)) k = map_find m k)"
proof -
  let ?m' = "AddBufferMap m A S C b"
  have r: "RemoveBufferMap ?m' A = (Some (if b then S else 0), erase A ?m')"
    by (simp add: RemoveBufferMap_def map_find_AddBufferMap IsAllocated_def Size_def)
  from assms have "map_ordered ?m'" by (rule map_ordered_AddBufferMap)
  then have "map_find (erase A ?m') A = None"
    by (simp add: map_find_def map_ordered_def map_of_erase)
  moreover have "\<forall>k. k \<noteq> A \<longrightarrow> map_find (erase A ?m') k = map_find m k"
    by (simp add: map_find_def map_of_erase_other AddBufferMap_def map_of_insert_or_assign_other)
  ultimately show ?thesis using r by simp
qed

theorem AddBufferMap_then_RemoveBufferMap_witness:
  "map_ordered two_mappings \<and>
   fst (RemoveBufferMap (AddBufferMap two_mappings 0x1800 0x40 0x9000 True) 0x1800) = Some 0x40 \<and>
   fst (RemoveBufferMap (AddBufferMap two_mappings 0x1800 0x40 0x9000 False) 0x1800) = Some 0 \<and>
   map_find (snd (RemoveBufferMap (AddBufferMap two_mappings 0x1800 0x40 0x9000 True) 0x1800))
     0x1800 = None \<and>
   map_find (snd (RemoveBufferMap (AddBufferMap two_mappings 0x1800 0x40 0x9000 True) 0x1800))
     0x1000 = Some b1000"
proof -
  have h: "map_ordered two_mappings"
    by (simp add: map_ordered_def two_mappings_def)
  have "map_find two_mappings 0x1000 = Some b1000"
    by (simp add: map_find_def two_mappings_def)
  then show ?thesis
    using h AddBufferMap_then_RemoveBufferMap [OF h, of "0x1800" "0x40" "0x9000" True]
      AddBufferMap_then_RemoveBufferMap [OF h, of "0x1800" "0x40" "0x9000" False]
    by simp
qed

subsection \<open>The invariant of the buffer address map\<close>

lemma buffer_mappings_call_gpu [simp]: "buffer_mappings (call_gpu c s) = buffer_mappings s"
  by (simp add: call_gpu_def)

lemma buffer_mappings_set_dma_map_addr [simp]:
  "buffer_mappings (set_dma_map_addr p a s) = buffer_mappings s"
  by (simp add: set_dma_map_addr_def)

lemma MapBuffer_entry_inv:
  "MapBuffer_entry g s e = Inr (s', r) \<Longrightarrow> buffer_map_inv (buffer_mappings s)
     \<Longrightarrow> buffer_map_inv (buffer_mappings s')"
  unfolding MapBuffer_entry_def
  by (auto simp: Let_def buffer_map_inv_AddBufferMap split: option.splits if_splits sum.splits)

lemma MapBuffer_loop_inv:
  "MapBuffer_loop g s es = Inr (s', r) \<Longrightarrow> buffer_map_inv (buffer_mappings s)
     \<Longrightarrow> buffer_map_inv (buffer_mappings s')"
proof (induction es arbitrary: s s' r)
  case Nil
  then show ?case by simp
next
  case (Cons e es)
  from Cons.prems(1) obtain s1 r1 where e: "MapBuffer_entry g s e = Inr (s1, r1)"
    by (auto split: sum.splits)
  from e Cons.prems(2) have inv1: "buffer_map_inv (buffer_mappings s1)"
    by (rule MapBuffer_entry_inv)
  show ?case
  proof (cases r1)
    case None
    with e Cons.prems(1) inv1 show ?thesis by simp
  next
    case (Some e')
    with e Cons.prems(1) obtain r2 where "MapBuffer_loop g s1 es = Inr (s', r2)"
      by (auto split: sum.splits option.splits)
    with inv1 show ?thesis by (rule Cons.IH [rotated])
  qed
qed

lemma RemoveBufferMap_inv:
  "RemoveBufferMap m a = (r, m') \<Longrightarrow> buffer_map_inv m \<Longrightarrow> buffer_map_inv m'"
  using buffer_map_inv_RemoveBufferMap [of m a] by simp

lemma UnmapBuffer_entry_inv:
  "UnmapBuffer_entry s e = Some s' \<Longrightarrow> buffer_map_inv (buffer_mappings s)
     \<Longrightarrow> buffer_map_inv (buffer_mappings s')"
  unfolding UnmapBuffer_entry_def
  by (auto simp: Let_def split: option.splits prod.splits dest: RemoveBufferMap_inv)

lemma UnmapBuffer_loop_inv:
  "UnmapBuffer_loop s es = (s', r) \<Longrightarrow> buffer_map_inv (buffer_mappings s)
     \<Longrightarrow> buffer_map_inv (buffer_mappings s')"
proof (induction es arbitrary: s)
  case Nil
  then show ?case by simp
next
  case (Cons e es)
  show ?case
  proof (cases "UnmapBuffer_entry s e")
    case None
    with Cons.prems show ?thesis by simp
  next
    case (Some s1)
    from Some Cons.prems(2) have "buffer_map_inv (buffer_mappings s1)"
      by (rule UnmapBuffer_entry_inv)
    moreover from Some Cons.prems(1) have "UnmapBuffer_loop s1 es = (s', r)" by simp
    ultimately show ?thesis by (rule Cons.IH [rotated])
  qed
qed

lemma Submit_loop_buffer_mappings:
  "Submit_loop L g live s cs = Inr (s', r) \<Longrightarrow> buffer_mappings s' = buffer_mappings s"
proof (induction cs arbitrary: s)
  case Nil
  then show ?case by simp
next
  case (Cons c cs)
  then show ?case
    by (fastforce simp: Let_def split: option.splits sum.splits)
qed

lemma MapBuffer_inv:
  "MapBuffer g s input output = Inr (st, s', out) \<Longrightarrow> buffer_map_inv (buffer_mappings s)
     \<Longrightarrow> buffer_map_inv (buffer_mappings s')"
  unfolding MapBuffer_def
  by (auto split: sum.splits option.splits prod.splits dest: MapBuffer_loop_inv)

lemma UnmapBuffer_inv:
  "UnmapBuffer s input output = Inr (st, s', out) \<Longrightarrow> buffer_map_inv (buffer_mappings s)
     \<Longrightarrow> buffer_map_inv (buffer_mappings s')"
  unfolding UnmapBuffer_def
  by (auto split: sum.splits prod.splits bool.splits dest: UnmapBuffer_loop_inv)

lemma Submit_buffer_mappings:
  "Submit L g s input output = Inr (st, s', out) \<Longrightarrow> buffer_mappings s' = buffer_mappings s"
  unfolding Submit_def
  by (auto split: sum.splits option.splits prod.splits dest: Submit_loop_buffer_mappings)

lemma sorted_wrt_less_distinct: "sorted_wrt (<) (ks :: u64 list) \<Longrightarrow> distinct ks"
  by (induction ks) auto

text \<open>
  C10. The invariant of the buffer address map: the entries are in key order with each key
  once, each entry's key is the start address of the mapping stored there, and the
  mapping's end address is its start address plus its size. \<^verbatim>\<open>AddBufferMap\<close> and
  \<^verbatim>\<open>RemoveBufferMap\<close> preserve it, and so does every operation of the device that
  returns (\<^verbatim>\<open>MapBuffer\<close>, \<^verbatim>\<open>UnmapBuffer\<close>, \<^verbatim>\<open>Submit\<close>, \<^verbatim>\<open>SetNVMAPfd\<close>,
  \<^verbatim>\<open>SetSubmitTimeout\<close>; \<^verbatim>\<open>GetSyncpoint\<close> and \<^verbatim>\<open>GetWaitbase\<close> have no access to the map).
  Under the invariant there is at most one entry for a device address, and looking a key
  up gives the entry stored with it.
\<close>

theorem buffer_map_inv_preserved:
  assumes "buffer_map_inv (buffer_mappings s)"
  shows "buffer_map_inv (AddBufferMap (buffer_mappings s) a sz c b) \<and>
         buffer_map_inv (snd (RemoveBufferMap (buffer_mappings s) a)) \<and>
         (\<forall>st s' out. MapBuffer g s inp outp = Inr (st, s', out)
            \<longrightarrow> buffer_map_inv (buffer_mappings s')) \<and>
         (\<forall>st s' out. UnmapBuffer s inp outp = Inr (st, s', out)
            \<longrightarrow> buffer_map_inv (buffer_mappings s')) \<and>
         (\<forall>st s' out. Submit L g s inp outp = Inr (st, s', out)
            \<longrightarrow> buffer_map_inv (buffer_mappings s')) \<and>
         (\<forall>st s'. SetNVMAPfd s inp = Inr (st, s') \<longrightarrow> buffer_map_inv (buffer_mappings s')) \<and>
         (\<forall>st s'. SetSubmitTimeout s inp = Inr (st, s')
            \<longrightarrow> buffer_map_inv (buffer_mappings s')) \<and>
         (\<forall>k e. (k, e) \<in> set (buffer_mappings s)
            \<longrightarrow> StartAddr e = k \<and> EndAddr e = StartAddr e + Size e
                \<and> map_find (buffer_mappings s) k = Some e) \<and>
         distinct (map fst (buffer_mappings s))"
proof -
  have d: "distinct (map fst (buffer_mappings s))"
    using assms by (simp add: buffer_map_inv_def map_ordered_def sorted_wrt_less_distinct)
  have "\<forall>k e. (k, e) \<in> set (buffer_mappings s)
            \<longrightarrow> StartAddr e = k \<and> EndAddr e = StartAddr e + Size e
                \<and> map_find (buffer_mappings s) k = Some e"
    using assms d by (auto simp: buffer_map_inv_def entries_keyed_def list_all_iff map_find_def)
  moreover have "\<forall>st s'. SetNVMAPfd s inp = Inr (st, s') \<longrightarrow> buffer_map_inv (buffer_mappings s')"
    using assms by (auto simp: SetNVMAPfd_def split: sum.splits)
  moreover have "\<forall>st s'. SetSubmitTimeout s inp = Inr (st, s')
            \<longrightarrow> buffer_map_inv (buffer_mappings s')"
    using assms by (auto simp: SetSubmitTimeout_def split: sum.splits)
  moreover have "\<forall>st s' out. MapBuffer g s inp outp = Inr (st, s', out)
            \<longrightarrow> buffer_map_inv (buffer_mappings s')"
    using assms MapBuffer_inv by blast
  moreover have "\<forall>st s' out. UnmapBuffer s inp outp = Inr (st, s', out)
            \<longrightarrow> buffer_map_inv (buffer_mappings s')"
    using assms UnmapBuffer_inv by blast
  moreover have "\<forall>st s' out. Submit L g s inp outp = Inr (st, s', out)
            \<longrightarrow> buffer_map_inv (buffer_mappings s')"
    using assms Submit_buffer_mappings by metis
  moreover have "buffer_map_inv (AddBufferMap (buffer_mappings s) a sz c b)"
    using assms by (rule buffer_map_inv_AddBufferMap)
  moreover have "buffer_map_inv (snd (RemoveBufferMap (buffer_mappings s) a))"
    using assms by (rule buffer_map_inv_RemoveBufferMap)
  ultimately show ?thesis using d by blast
qed

subsection \<open>Unfolding the model on concrete input\<close>

lemmas codec_defs =
  load_u32_def u32_of_bytes_def store_u32_def memcpy_to_def SpliceVectors_def WriteVectors_def
  load_raw_def store_raw_def read_params_def
  sizeof_IoctlSubmit_def load_IoctlSubmit_def store_IoctlSubmit_def
  sizeof_CommandBuffer_def load_CommandBuffer_def store_CommandBuffer_def
  sizeof_IoctlGetSyncpoint_def load_IoctlGetSyncpoint_def store_IoctlGetSyncpoint_def
  sizeof_IoctlMapBuffer_def load_IoctlMapBuffer_def store_IoctlMapBuffer_def
  sizeof_MapBufferEntry_def load_MapBufferEntry_def store_MapBufferEntry_def

lemmas map_defs =
  FindBufferMap_def upper_bound_def map_find_def AddBufferMap_def RemoveBufferMap_def
  StartAddr_def EndAddr_def Size_def IsAllocated_def in_range_def

lemmas device_defs =
  GetObject_def call_gpu_def set_dma_map_addr_def copy_params_to_output_def
  MapBuffer_entry_def MapBuffer_def UnmapBuffer_entry_def UnmapBuffer_def
  Submit_splice_def Submit_write_def Submit_def GetSyncpoint_def GetWaitbase_def
  Success_def InvalidInput_def

lemmas session_defs =
  session_def session_gpu_def object_mapped_def object_unmapped_def
  two_mappings_def one_mapping_def b1000_def b2000_def map_request_def

text \<open>A session where the invariant holds and the operations return.\<close>

theorem buffer_map_inv_preserved_witness:
  "buffer_map_inv (buffer_mappings session) \<and>
   buffer_map_inv (AddBufferMap (buffer_mappings session) 0x3000 0x1000 0x80002000 True) \<and>
   buffer_map_inv (snd (RemoveBufferMap (buffer_mappings session) 0x1000)) \<and>
   distinct (map fst (buffer_mappings session)) \<and>
   (\<exists>s' out. MapBuffer session_gpu session (map_request 4) (replicate 12 0) = Inr (0, s', out) \<and>
      buffer_map_inv (buffer_mappings s')) \<and>
   (\<exists>s' out. UnmapBuffer session (map_request 3) (replicate 12 0) = Inr (0, s', out) \<and>
      buffer_map_inv (buffer_mappings s'))"
proof -
  have h: "buffer_map_inv (buffer_mappings session)"
    by (simp add: buffer_map_inv_def map_ordered_def entries_keyed_def map_defs session_defs)
  obtain s1 out1 where
    m: "MapBuffer session_gpu session (map_request 4) (replicate 12 0) = Inr (0, s1, out1)"
    by (simp add: codec_defs map_defs device_defs session_defs Let_def upt_rec)
  obtain s2 out2 where
    u: "UnmapBuffer session (map_request 3) (replicate 12 0) = Inr (0, s2, out2)"
    by (simp add: codec_defs map_defs device_defs session_defs Let_def upt_rec)
  note p = buffer_map_inv_preserved [OF h, where a = "0x3000" and sz = "0x1000"
      and c = "0x80002000" and b = True and g = session_gpu and outp = "replicate 12 0"]
  from p [where inp = "map_request 4"] m
  have "buffer_map_inv (buffer_mappings s1)" by blast
  moreover from p [where inp = "map_request 3"] u
  have "buffer_map_inv (buffer_mappings s2)" by blast
  moreover from buffer_map_inv_preserved [OF h, where a = "0x1000"]
  have "buffer_map_inv (snd (RemoveBufferMap (buffer_mappings session) 0x1000))" by blast
  ultimately show ?thesis
    using h m u p [where inp = "[]"] by blast
qed

subsection \<open>Looking an address up\<close>

text \<open>
  C2. The claim: when no entry's range holds \<open>x\<close>, in particular at the exclusive end of
  the only mapping, the lookup returns "not found" rather than failing or returning some
  other entry. The code at \<open>x = 0x1100\<close>, the exclusive end of the mapping
  \<open>[0x1000, 0x1100)\<close>: with that mapping alone \<^verbatim>\<open>find_if\<close> returns \<open>end()\<close>, the assertion
  fails and \<open>end()\<close> is dereferenced; with a second mapping at \<open>0x2000\<close> the lookup
  returns that second mapping, whose range does not hold \<open>0x1100\<close>.
\<close>

theorem FindBufferMap_past_the_end:
  "FindBufferMap one_mapping 0x1100 = Inl AssertionFailed \<and>
   FindBufferMap two_mappings 0x1100 = Inr (Some b2000) \<and>
   \<not> in_range b1000 0x1100 \<and> \<not> in_range b2000 0x1100"
  by (simp add: map_defs session_defs)

text \<open>For no map and no address is the result of the lookup the empty optional.\<close>

lemma FindBufferMap_never_nullopt: "FindBufferMap m x \<noteq> Inr None"
  by (simp add: FindBufferMap_def Let_def)

text \<open>
  What the lookup does find: in a map that satisfies the invariant, when the range of some
  entry holds the address, the result is an entry of the map whose range holds it; it is
  that entry when no other range holds the address.
\<close>

lemma find_if_finds:
  "\<exists>e\<in>set xs. P e \<Longrightarrow> find_if P xs < length xs \<and> P (xs ! find_if P xs)"
  by (induction xs) auto

lemma below_upper_bound:
  "sorted_wrt (<) (map fst m) \<Longrightarrow> e \<in> set m \<Longrightarrow> \<not> x < fst e
     \<Longrightarrow> e \<in> set (take (upper_bound m x) m)"
proof (induction m)
  case Nil
  then show ?case by simp
next
  case (Cons e' m)
  show ?case
  proof (cases "x < fst e'")
    case True
    with Cons.prems have "e \<noteq> e'" by auto
    with Cons.prems have "e \<in> set m" by simp
    with Cons.prems(1) have "fst e' < fst e" by auto
    with True Cons.prems(3) show ?thesis by simp
  next
    case False
    from Cons.prems(1) have "sorted_wrt (<) (map fst m)" by simp
    with Cons.IH Cons.prems False show ?thesis
      by (auto simp: upper_bound_def)
  qed
qed

lemma FindBufferMap_finds:
  assumes inv: "buffer_map_inv m" and e: "(k, b) \<in> set m" and r: "in_range b x"
  shows "\<exists>b'. FindBufferMap m x = Inr (Some b') \<and> in_range b' x \<and> b' \<in> snd ` set m"
proof -
  let ?P = "\<lambda>entry. x \<ge> StartAddr (snd entry) \<and> x < EndAddr (snd entry)"
  let ?pre = "take (upper_bound m x) m"
  from inv e have "StartAddr b = k"
    by (auto simp: buffer_map_inv_def entries_keyed_def list_all_iff)
  with r have "\<not> x < fst (k, b)" by (auto simp: in_range_def)
  with inv e have "(k, b) \<in> set ?pre"
    by (simp add: buffer_map_inv_def map_ordered_def below_upper_bound)
  moreover from r have "?P (k, b)" by (simp add: in_range_def)
  ultimately have "\<exists>e\<in>set ?pre. ?P e" by blast
  then have f: "find_if ?P ?pre < length ?pre" and p: "?P (?pre ! find_if ?P ?pre)"
    using find_if_finds [of ?pre ?P] by blast+
  define it where "it = find_if ?P ?pre"
  from f have lt: "it < length m" and lt': "it < upper_bound m x" by (simp_all add: it_def)
  then have nth: "?pre ! it = m ! it" by simp
  from lt have "FindBufferMap m x = Inr (Some (snd (m ! it)))"
    by (simp add: FindBufferMap_def it_def)
  moreover from p nth have "in_range (snd (m ! it)) x"
    by (simp add: in_range_def it_def)
  moreover from lt have "snd (m ! it) \<in> snd ` set m" by simp
  ultimately show ?thesis by blast
qed

lemma FindBufferMap_finds_the_mapping:
  assumes "buffer_map_inv m" and "(k, b) \<in> set m" and "in_range b x"
    and "\<forall>b'\<in>snd ` set m. in_range b' x \<longrightarrow> b' = b"
  shows "FindBufferMap m x = Inr (Some b)"
  using FindBufferMap_finds [OF assms(1-3)] assms(4) by auto

subsection \<open>MapBuffer and UnmapBuffer with a handle that has no object\<close>

text \<open>
  C4. The claim: on a handle without object the operation writes the decoded header back
  into the output buffer and returns -22. The code for a request of one entry whose
  handle 9 has no object, with an output buffer of the size of the request (12 bytes):
  the copy takes \<open>output.size()\<close> = 12 bytes out of \<open>params\<close>, which is
  \<open>sizeof(IoctlMapBuffer)\<close> = 4 bytes long, and reads past it.
\<close>

theorem invalid_handle_copy_past_params:
  "GetObject session 9 = None \<and>
   MapBuffer session_gpu session (map_request 9) (replicate 12 0) = Inl OutOfBoundsRead \<and>
   UnmapBuffer session (map_request 9) (replicate 12 0) = Inl OutOfBoundsRead"
  by (simp add: codec_defs map_defs device_defs session_defs Let_def upt_rec)

subsection \<open>GetSyncpoint and GetWaitbase\<close>

lemma load_u32_append_left:
  "off + 4 \<le> length bs \<Longrightarrow> load_u32 (bs @ rest) off = load_u32 bs off"
  by (simp add: load_u32_def nth_append)

lemma load_u32_append_right:
  "load_u32 (pre @ bs) (length pre + off) = load_u32 bs off"
  by (simp add: load_u32_def nth_append)

lemma load_u32_take:
  "off + 4 \<le> n \<Longrightarrow> load_u32 (take n bs) off = load_u32 bs off"
  by (simp add: load_u32_def)

text \<open>
  C5. For every request of \<^verbatim>\<open>GetSyncpoint\<close> and of \<^verbatim>\<open>GetWaitbase\<close>, whatever its \<open>param\<close>
  and \<open>value\<close>: the status is 0, the \<open>value\<close> field written to the output is 0 and the
  \<open>param\<close> field is that of the input, byte for byte; the output beyond the record is
  untouched. Input and output buffer hold the 8 bytes of the record.
\<close>

theorem GetSyncpoint_GetWaitbase_value_zero:
  assumes "sizeof_IoctlGetSyncpoint \<le> length input"
    and "sizeof_IoctlGetSyncpoint \<le> length output"
  shows "GetSyncpoint input output = Inr (0, take 4 input @ store_u32 0 @ drop 8 output) \<and>
         GetWaitbase input output = Inr (0, take 4 input @ store_u32 0 @ drop 8 output) \<and>
         value (load_IoctlGetSyncpoint (take 4 input @ store_u32 0 @ drop 8 output)) = 0 \<and>
         param (load_IoctlGetSyncpoint (take 4 input @ store_u32 0 @ drop 8 output))
           = param (load_IoctlGetSyncpoint input)"
proof -
  from assms have i: "8 \<le> length input" and o: "8 \<le> length output"
    by (simp_all add: sizeof_IoctlGetSyncpoint_def)
  from i have p: "store_u32 (load_u32 input 0) = take 4 input"
    using store_load_u32 [of 0 input] by simp
  have w: "memcpy_to output 0 (store_IoctlGetSyncpoint ((load_IoctlGetSyncpoint input)\<lparr>value := 0\<rparr>))
             = Inr (take 4 input @ store_u32 0 @ drop 8 output)"
    using i o by (simp add: memcpy_to_def store_IoctlGetSyncpoint_def load_IoctlGetSyncpoint_def p
        length_store_u32)
  have v: "load_u32 (take 4 input @ store_u32 0 @ drop 8 output) 4 = 0"
    using i load_u32_append_right [of "take 4 input" "store_u32 0 @ drop 8 output" 0]
    by (simp add: load_store_u32)
  have "load_u32 (take 4 input @ store_u32 0 @ drop 8 output) 0 = load_u32 (take 4 input) 0"
    using i by (simp add: load_u32_append_left)
  also have "\<dots> = load_u32 input 0" by (simp add: load_u32_take)
  finally have q: "load_u32 (take 4 input @ store_u32 0 @ drop 8 output) 0 = load_u32 input 0" .
  from i w v q show ?thesis
    by (simp add: GetSyncpoint_def GetWaitbase_def read_params_def sizeof_IoctlGetSyncpoint_def
        load_IoctlGetSyncpoint_def Success_def)
qed

theorem GetSyncpoint_GetWaitbase_value_zero_witness:
  "GetSyncpoint [5, 0, 0, 0, 0x2A, 1, 2, 3] [9, 9, 9, 9, 9, 9, 9, 9, 9]
     = Inr (0, [5, 0, 0, 0, 0, 0, 0, 0, 9]) \<and>
   GetWaitbase [5, 0, 0, 0, 0x2A, 1, 2, 3] [9, 9, 9, 9, 9, 9, 9, 9, 9]
     = Inr (0, [5, 0, 0, 0, 0, 0, 0, 0, 9])"
  using GetSyncpoint_GetWaitbase_value_zero
    [of "[5, 0, 0, 0, 0x2A, 1, 2, 3]" "[9, 9, 9, 9, 9, 9, 9, 9, 9]"]
  by (simp add: sizeof_IoctlGetSyncpoint_def store_u32_def)

subsection \<open>UnmapBuffer\<close>

lemma GetObject_call_gpu [simp]: "GetObject (call_gpu c s) h = GetObject s h"
  by (simp add: GetObject_def call_gpu_def)

lemma GetObject_set_dma_map_addr [simp]: "GetObject (set_dma_map_addr p a s) h = GetObject s h"
  by (simp add: GetObject_def set_dma_map_addr_def)

lemma GetObject_buffer_mappings_update [simp]:
  "GetObject (s\<lparr>buffer_mappings := m\<rparr>) h = GetObject s h"
  by (simp add: GetObject_def)

lemma objects_call_gpu [simp]: "objects (call_gpu c s) = objects s"
  by (simp add: call_gpu_def)

lemma objects_set_dma_map_addr:
  "objects (set_dma_map_addr p a s) q =
     (if q = p then (objects s p)\<lparr>dma_map_addr := a\<rparr> else objects s q)"
  by (simp add: set_dma_map_addr_def)

lemma request_decode:
  assumes "request_size input \<le> length input"
  shows "read_params sizeof_IoctlMapBuffer load_IoctlMapBuffer input
           = Inr (load_IoctlMapBuffer input)"
    and "SpliceVectors sizeof_MapBufferEntry load_MapBufferEntry input
           (unat (num_entries (load_IoctlMapBuffer input))) sizeof_IoctlMapBuffer
           = Inr (request_entries input, request_size input)"
  using assms
  by (simp_all add: read_params_def SpliceVectors_def request_size_def request_entries_def)

lemma UnmapBuffer_entry_resolved:
  assumes "GetObject s (map_handle e) = Some p"
  shows "\<exists>s1. UnmapBuffer_entry s e = Some s1 \<and> (\<forall>h. GetObject s1 h = GetObject s h) \<and>
           dma_map_addr (objects s1 p) = 0 \<and> (\<forall>q. q \<noteq> p \<longrightarrow> objects s1 q = objects s q)"
  using assms unfolding UnmapBuffer_entry_def
  by (auto simp: Let_def objects_set_dma_map_addr split: prod.splits option.splits)

lemma UnmapBuffer_loop_all_resolved:
  "\<forall>e\<in>set es. GetObject s (map_handle e) \<noteq> None \<Longrightarrow>
     \<exists>s'. UnmapBuffer_loop s es = (s', True) \<and> (\<forall>h. GetObject s' h = GetObject s h) \<and>
       (\<forall>q. dma_map_addr (objects s q) = 0 \<longrightarrow> dma_map_addr (objects s' q) = 0) \<and>
       (\<forall>e\<in>set es. \<forall>p. GetObject s (map_handle e) = Some p \<longrightarrow> dma_map_addr (objects s' p) = 0)"
proof (induction es arbitrary: s)
  case Nil
  then show ?case by simp
next
  case (Cons e es)
  from Cons.prems obtain p where p: "GetObject s (map_handle e) = Some p" by auto
  from UnmapBuffer_entry_resolved [OF p] obtain s1 where
    s1: "UnmapBuffer_entry s e = Some s1" and h1: "\<forall>h. GetObject s1 h = GetObject s h"
    and z1: "dma_map_addr (objects s1 p) = 0" and o1: "\<forall>q. q \<noteq> p \<longrightarrow> objects s1 q = objects s q"
    by blast
  from Cons.prems h1 have "\<forall>e\<in>set es. GetObject s1 (map_handle e) \<noteq> None" by simp
  from Cons.IH [OF this] obtain s' where
    l: "UnmapBuffer_loop s1 es = (s', True)" and h: "\<forall>h. GetObject s' h = GetObject s1 h"
    and k: "\<forall>q. dma_map_addr (objects s1 q) = 0 \<longrightarrow> dma_map_addr (objects s' q) = 0"
    and r: "\<forall>e\<in>set es. \<forall>p. GetObject s1 (map_handle e) = Some p \<longrightarrow> dma_map_addr (objects s' p) = 0"
    by blast
  have keep: "\<forall>q. dma_map_addr (objects s q) = 0 \<longrightarrow> dma_map_addr (objects s' q) = 0"
    using z1 o1 k by metis
  have "UnmapBuffer_loop s (e # es) = (s', True)" using s1 l by simp
  moreover have "\<forall>h. GetObject s' h = GetObject s h" using h h1 by simp
  moreover have "\<forall>e'\<in>set (e # es). \<forall>q. GetObject s (map_handle e') = Some q
      \<longrightarrow> dma_map_addr (objects s' q) = 0"
    using p z1 k r h1 by auto
  ultimately show ?case using keep by blast
qed

text \<open>
  C9. For every call of \<^verbatim>\<open>UnmapBuffer\<close> in which the handle of every entry has an object
  (the input holds the header and the entries it announces): the status is 0, the whole
  output buffer is filled with zeros, and afterwards the object of every entry has the
  device-mapping address 0, whether \<^verbatim>\<open>RemoveBufferMap\<close> found an entry for it or not.
\<close>

theorem UnmapBuffer_zeroes:
  assumes "request_size input \<le> length input"
    and "\<forall>e\<in>set (request_entries input). GetObject s (map_handle e) \<noteq> None"
  shows "\<exists>s'. UnmapBuffer s input output = Inr (0, s', replicate (length output) 0) \<and>
           (\<forall>e\<in>set (request_entries input). \<exists>p. GetObject s (map_handle e) = Some p \<and>
              dma_map_addr (objects s' p) = 0)"
proof -
  from UnmapBuffer_loop_all_resolved [OF assms(2)] obtain s' where
    l: "UnmapBuffer_loop s (request_entries input) = (s', True)"
    and r: "\<forall>e\<in>set (request_entries input). \<forall>p. GetObject s (map_handle e) = Some p
          \<longrightarrow> dma_map_addr (objects s' p) = 0"
    by blast
  have "UnmapBuffer s input output = Inr (0, s', replicate (length output) 0)"
    using l by (simp add: UnmapBuffer_def request_decode [OF assms(1)] Success_def)
  moreover have "\<forall>e\<in>set (request_entries input). \<exists>p. GetObject s (map_handle e) = Some p \<and>
              dma_map_addr (objects s' p) = 0"
    using assms(2) r by auto
  ultimately show ?thesis by blast
qed

lemmas request_defs =
  request_size_def request_entries_def request_command_buffers_def reported_entry_def
  Submit_input_size_def Submit_output_size_def session_platform_def submit_request_def
  submit_header_only_def

lemma request_entries_map_request:
  "request_entries (map_request h) = [\<lparr>map_handle = ucast h, map_address = 0\<rparr>]"
  by (simp add: request_defs codec_defs session_defs upt_rec)

theorem UnmapBuffer_zeroes_witness:
  "request_size (map_request 3) \<le> length (map_request 3) \<and>
   GetObject session 3 = Some 0 \<and>
   (\<exists>s'. UnmapBuffer session (map_request 3) (replicate 12 0xFF) = Inr (0, s', replicate 12 0) \<and>
      dma_map_addr (objects s' 0) = 0)"
proof -
  have a: "request_size (map_request 3) \<le> length (map_request 3)"
    by (simp add: request_defs codec_defs session_defs)
  have e: "request_entries (map_request 3) = [\<lparr>map_handle = 3, map_address = 0\<rparr>]"
    by (simp add: request_entries_map_request)
  have g: "GetObject session 3 = Some 0"
    by (simp add: GetObject_def session_def)
  have b: "\<forall>e\<in>set (request_entries (map_request 3)). GetObject session (map_handle e) \<noteq> None"
    by (simp add: e g)
  from UnmapBuffer_zeroes [OF a b, of "replicate 12 0xFF"] e g a show ?thesis
    by auto
qed

lemma map_of_erase_None: "map_of m k' = None \<Longrightarrow> map_of (erase k m) k' = None"
  by (induction m) (auto split: if_splits)

lemma RemoveBufferMap_absent:
  "map_find m a = None \<Longrightarrow> RemoveBufferMap m a = (None, m)"
  by (simp add: RemoveBufferMap_def)

lemma RemoveBufferMap_keeps_absent:
  "RemoveBufferMap m a = (r, m') \<Longrightarrow> map_find m k = None \<Longrightarrow> map_find m' k = None"
  by (auto simp: RemoveBufferMap_def map_find_def map_of_erase_None split: option.splits)

lemma UnmapBuffer_entry_unmapped:
  assumes "map_find (buffer_mappings s) 0 = None"
    and "GetObject s (map_handle e) = Some p"
    and "dma_map_addr (objects s p) = 0"
  shows "UnmapBuffer_entry s e = Some s"
proof -
  have "(objects s)(p := (objects s p)\<lparr>dma_map_addr := 0\<rparr>) = objects s"
    using assms(3) by (auto simp: fun_eq_iff)
  then show ?thesis
    using assms by (simp add: UnmapBuffer_entry_def RemoveBufferMap_absent set_dma_map_addr_def)
qed

lemma UnmapBuffer_entry_keeps:
  assumes "UnmapBuffer_entry s e' = Some s1"
  shows "(map_find (buffer_mappings s) 0 = None \<longrightarrow> map_find (buffer_mappings s1) 0 = None) \<and>
         (\<forall>h. GetObject s1 h = GetObject s h) \<and>
         (\<forall>q. dma_map_addr (objects s q) = 0 \<longrightarrow> dma_map_addr (objects s1 q) = 0)"
  using assms unfolding UnmapBuffer_entry_def
  by (auto simp: Let_def objects_set_dma_map_addr split: prod.splits option.splits
      dest: RemoveBufferMap_keeps_absent)

lemma UnmapBuffer_loop_skip_unmapped:
  assumes "map_find (buffer_mappings s) 0 = None"
    and "GetObject s (map_handle e) = Some p"
    and "dma_map_addr (objects s p) = 0"
  shows "UnmapBuffer_loop s (es1 @ e # es2) = UnmapBuffer_loop s (es1 @ es2)"
  using assms
proof (induction es1 arbitrary: s)
  case Nil
  then show ?case by (simp add: UnmapBuffer_entry_unmapped)
next
  case (Cons e' es1)
  show ?case
  proof (cases "UnmapBuffer_entry s e'")
    case None
    then show ?thesis by simp
  next
    case (Some s1)
    from UnmapBuffer_entry_keeps [OF Some] Cons.prems
    have "map_find (buffer_mappings s1) 0 = None" and "GetObject s1 (map_handle e) = Some p"
      and "dma_map_addr (objects s1 p) = 0"
      by simp_all
    then have "UnmapBuffer_loop s1 (es1 @ e # es2) = UnmapBuffer_loop s1 (es1 @ es2)"
      by (rule Cons.IH)
    with Some show ?thesis by simp
  qed
qed

text \<open>
  C8. For every entry of \<^verbatim>\<open>UnmapBuffer\<close> whose handle has an object with the
  device-mapping address 0, in a session whose buffer map has no entry at address 0: the
  round of the loop for this entry leaves the whole state as it was, so no \<^verbatim>\<open>Unmap\<close> is
  forwarded to the GPU and the address stays 0; within a longer list of entries the entry
  can be left out without changing what the loop does; and the call with this entry
  returns status 0, with the state unchanged.
\<close>

theorem UnmapBuffer_never_mapped:
  assumes "map_find (buffer_mappings s) 0 = None"
    and "GetObject s (map_handle e) = Some p"
    and "dma_map_addr (objects s p) = 0"
  shows "UnmapBuffer_entry s e = Some s \<and>
         UnmapBuffer_loop s (es1 @ e # es2) = UnmapBuffer_loop s (es1 @ es2) \<and>
         (request_size inp \<le> length inp \<and> request_entries inp = [e]
            \<longrightarrow> UnmapBuffer s inp outp = Inr (0, s, replicate (length outp) 0))"
proof -
  have "UnmapBuffer s inp outp = Inr (0, s, replicate (length outp) 0)"
    if "request_size inp \<le> length inp" and "request_entries inp = [e]"
    using that UnmapBuffer_entry_unmapped [OF assms]
    by (simp add: UnmapBuffer_def request_decode Success_def)
  then show ?thesis
    using UnmapBuffer_entry_unmapped [OF assms] UnmapBuffer_loop_skip_unmapped [OF assms]
    by blast
qed

theorem UnmapBuffer_never_mapped_witness:
  "map_find (buffer_mappings session) 0 = None \<and> GetObject session 4 = Some 1 \<and>
   dma_map_addr (objects session 1) = 0 \<and>
   UnmapBuffer session (map_request 4) (replicate 12 0xFF) = Inr (0, session, replicate 12 0) \<and>
   UnmapBuffer_loop session
     [\<lparr>map_handle = 3, map_address = 0\<rparr>, \<lparr>map_handle = 4, map_address = 0\<rparr>]
     = UnmapBuffer_loop session [\<lparr>map_handle = 3, map_address = 0\<rparr>]"
proof -
  have a: "map_find (buffer_mappings session) 0 = None"
    by (simp add: map_find_def session_defs)
  have b: "GetObject session (map_handle \<lparr>map_handle = 4, map_address = 0\<rparr>) = Some 1"
    by (simp add: GetObject_def session_def)
  have c: "dma_map_addr (objects session 1) = 0"
    by (simp add: session_defs)
  have d: "request_size (map_request 4) \<le> length (map_request 4)"
    by (simp add: request_defs codec_defs session_defs)
  have e: "request_entries (map_request 4) = [\<lparr>map_handle = 4, map_address = 0\<rparr>]"
    by (simp add: request_entries_map_request)
  from UnmapBuffer_never_mapped [OF a b c, where inp = "map_request 4"
      and outp = "replicate 12 0xFF" and ?es1.0 = "[\<lparr>map_handle = 3, map_address = 0\<rparr>]"
      and ?es2.0 = "[]"]
    a b c d e
  show ?thesis by simp
qed

subsection \<open>MapBuffer\<close>

lemma MapBuffer_entry_mapped:
  assumes "GetObject s (map_handle e) = Some p" and "dma_map_addr (objects s p) \<noteq> 0"
  shows "MapBuffer_entry g s e =
           Inr (s\<lparr>buffer_mappings :=
                    AddBufferMap (buffer_mappings s) (ucast (dma_map_addr (objects s p)))
                      (size_bytes (objects s p)) (addr (objects s p))
                      (status (objects s p) = Allocated)\<rparr>,
                Some (e\<lparr>map_address := dma_map_addr (objects s p)\<rparr>))"
  using assms by (simp add: MapBuffer_entry_def)

lemma MapBuffer_entry_keeps_mapped:
  assumes "MapBuffer_entry g s e = Inr (s1, r)" and "dma_map_addr (objects s q) \<noteq> 0"
  shows "objects s1 q = objects s q"
  using assms unfolding MapBuffer_entry_def
  by (auto simp: Let_def objects_set_dma_map_addr split: option.splits if_splits)

lemma MapBuffer_loop_keeps_mapped:
  "MapBuffer_loop g s es = Inr (s', r) \<Longrightarrow> dma_map_addr (objects s q) \<noteq> 0
     \<Longrightarrow> objects s' q = objects s q"
proof (induction es arbitrary: s r)
  case Nil
  then show ?case by simp
next
  case (Cons e es)
  from Cons.prems(1) obtain s1 r1 where e: "MapBuffer_entry g s e = Inr (s1, r1)"
    by (auto split: sum.splits)
  from e Cons.prems(2) have k: "objects s1 q = objects s q"
    by (rule MapBuffer_entry_keeps_mapped)
  show ?case
  proof (cases r1)
    case None
    with e Cons.prems(1) k show ?thesis by simp
  next
    case (Some e')
    with e Cons.prems(1) obtain r2 where "MapBuffer_loop g s1 es = Inr (s', r2)"
      by (auto split: sum.splits option.splits)
    moreover from k Cons.prems(2) have "dma_map_addr (objects s1 q) \<noteq> 0" by simp
    ultimately have "objects s' q = objects s1 q" by (rule Cons.IH)
    with k show ?thesis by simp
  qed
qed

lemma MapBuffer_keeps_mapped:
  "MapBuffer g s inp outp = Inr (st, s', out) \<Longrightarrow> dma_map_addr (objects s q) \<noteq> 0
     \<Longrightarrow> objects s' q = objects s q"
  unfolding MapBuffer_def
  by (auto split: sum.splits option.splits prod.splits dest: MapBuffer_loop_keeps_mapped)

lemma reported_entry_buffer_mappings [simp]:
  "reported_entry (s\<lparr>buffer_mappings := m\<rparr>) e = reported_entry s e"
  by (simp add: reported_entry_def split: option.splits)

lemma MapBuffer_loop_all_mapped:
  "\<forall>e\<in>set es. \<exists>p. GetObject s (map_handle e) = Some p \<and> dma_map_addr (objects s p) \<noteq> 0 \<Longrightarrow>
     \<exists>m'. MapBuffer_loop g s es = Inr (s\<lparr>buffer_mappings := m'\<rparr>, Some (map (reported_entry s) es))"
proof (induction es arbitrary: s)
  case Nil
  have "s\<lparr>buffer_mappings := buffer_mappings s\<rparr> = s" by simp
  then have "MapBuffer_loop g s [] = Inr (s\<lparr>buffer_mappings := buffer_mappings s\<rparr>, Some [])"
    by simp
  then show ?case by (metis list.simps(8))
next
  case (Cons e es)
  from Cons.prems obtain p where p: "GetObject s (map_handle e) = Some p"
    and n: "dma_map_addr (objects s p) \<noteq> 0" by auto
  define m1 where "m1 = AddBufferMap (buffer_mappings s) (ucast (dma_map_addr (objects s p)))
                      (size_bytes (objects s p)) (addr (objects s p))
                      (status (objects s p) = Allocated)"
  let ?s1 = "s\<lparr>buffer_mappings := m1\<rparr>"
  have e: "MapBuffer_entry g s e = Inr (?s1, Some (reported_entry s e))"
    using MapBuffer_entry_mapped [OF p n] p by (simp add: m1_def reported_entry_def)
  from Cons.prems
  have "\<forall>e\<in>set es. \<exists>p. GetObject ?s1 (map_handle e) = Some p \<and> dma_map_addr (objects ?s1 p) \<noteq> 0"
    by simp
  from Cons.IH [OF this] obtain m' where
    "MapBuffer_loop g ?s1 es = Inr (?s1\<lparr>buffer_mappings := m'\<rparr>, Some (map (reported_entry ?s1) es))"
    by blast
  with e have "MapBuffer_loop g s (e # es)
      = Inr (s\<lparr>buffer_mappings := m'\<rparr>, Some (map (reported_entry s) (e # es)))"
    by simp
  then show ?case by blast
qed

lemma store_load_IoctlMapBuffer:
  "4 \<le> length bs \<Longrightarrow> store_IoctlMapBuffer (load_IoctlMapBuffer bs) = take 4 bs"
  using store_load_u32 [of 0 bs]
  by (simp add: store_IoctlMapBuffer_def load_IoctlMapBuffer_def)

lemma length_store_MapBufferEntry: "length (store_MapBufferEntry e) = 8"
  by (simp add: store_MapBufferEntry_def length_store_u32)

lemma length_concat_store_MapBufferEntry:
  "length (concat (map store_MapBufferEntry es)) = length es * 8"
  by (induction es) (simp_all add: length_store_MapBufferEntry)

text \<open>
  C6. For every entry of \<^verbatim>\<open>MapBuffer\<close> whose handle has an object with a non-zero
  device-mapping address: the round of the loop for this entry changes nothing but the
  buffer map, so it makes no call to the GPU and allocates nothing, and it writes the
  existing address into the entry. No call of \<^verbatim>\<open>MapBuffer\<close> changes an object whose
  address is non-zero. A call all of whose entries have such objects returns status 0,
  leaves objects and GPU untouched and reports each object's existing address: mapping
  an object again without unmapping it in between reuses its address.
\<close>

theorem MapBuffer_reuses_address:
  assumes "GetObject s (map_handle e) = Some p" and "dma_map_addr (objects s p) \<noteq> 0"
  shows "(\<exists>m'. MapBuffer_entry g s e =
            Inr (s\<lparr>buffer_mappings := m'\<rparr>, Some (e\<lparr>map_address := dma_map_addr (objects s p)\<rparr>))) \<and>
         (\<forall>st s' out. MapBuffer g s inp outp = Inr (st, s', out) \<longrightarrow> objects s' p = objects s p) \<and>
         (request_size inp \<le> length inp \<and> request_size inp \<le> length outp \<and>
          (\<forall>e'\<in>set (request_entries inp).
              \<exists>q. GetObject s (map_handle e') = Some q \<and> dma_map_addr (objects s q) \<noteq> 0)
          \<longrightarrow> (\<exists>m'. MapBuffer g s inp outp =
                 Inr (0, s\<lparr>buffer_mappings := m'\<rparr>,
                      take 4 inp
                        @ concat (map store_MapBufferEntry (map (reported_entry s) (request_entries inp)))
                        @ drop (request_size inp) outp)))"
proof -
  have call: "\<exists>m'. MapBuffer g s inp outp =
                 Inr (0, s\<lparr>buffer_mappings := m'\<rparr>,
                      take 4 inp
                        @ concat (map store_MapBufferEntry (map (reported_entry s) (request_entries inp)))
                        @ drop (request_size inp) outp)"
    if i: "request_size inp \<le> length inp" and o: "request_size inp \<le> length outp"
      and all: "\<forall>e'\<in>set (request_entries inp).
              \<exists>q. GetObject s (map_handle e') = Some q \<and> dma_map_addr (objects s q) \<noteq> 0"
  proof -
    from MapBuffer_loop_all_mapped [OF all] obtain m' where
      l: "MapBuffer_loop g s (request_entries inp)
            = Inr (s\<lparr>buffer_mappings := m'\<rparr>, Some (map (reported_entry s) (request_entries inp)))"
      by blast
    let ?bytes = "concat (map store_MapBufferEntry (map (reported_entry s) (request_entries inp)))"
    have "length ?bytes = length (request_entries inp) * 8"
      by (simp only: length_concat_store_MapBufferEntry length_map)
    then have len: "4 + length ?bytes = request_size inp"
      by (simp add: request_size_def request_entries_def
          sizeof_IoctlMapBuffer_def sizeof_MapBufferEntry_def)
    from i have i4: "4 \<le> length inp"
      by (simp add: request_size_def sizeof_IoctlMapBuffer_def)
    from o have o4: "4 \<le> length outp"
      by (simp add: request_size_def sizeof_IoctlMapBuffer_def)
    have w0: "memcpy_to outp 0 (store_IoctlMapBuffer (load_IoctlMapBuffer inp))
                = Inr (take 4 inp @ drop 4 outp)"
      using i4 o4 by (simp add: memcpy_to_def store_load_IoctlMapBuffer)
    have w1: "memcpy_to (take 4 inp @ drop 4 outp) sizeof_IoctlMapBuffer ?bytes
                = Inr (take 4 inp @ ?bytes @ drop (request_size inp) outp)"
      using i4 o4 o len by (simp add: memcpy_to_def sizeof_IoctlMapBuffer_def add.commute)
    have "MapBuffer g s inp outp =
            Inr (0, s\<lparr>buffer_mappings := m'\<rparr>, take 4 inp @ ?bytes @ drop (request_size inp) outp)"
      using l w0 w1 by (simp add: MapBuffer_def request_decode [OF i] Success_def)
    then show ?thesis by blast
  qed
  have "\<exists>m'. MapBuffer_entry g s e =
            Inr (s\<lparr>buffer_mappings := m'\<rparr>, Some (e\<lparr>map_address := dma_map_addr (objects s p)\<rparr>))"
    using MapBuffer_entry_mapped [OF assms] by blast
  moreover have "\<forall>st s' out. MapBuffer g s inp outp = Inr (st, s', out) \<longrightarrow> objects s' p = objects s p"
    using MapBuffer_keeps_mapped assms(2) by blast
  ultimately show ?thesis using call by blast
qed

theorem MapBuffer_reuses_address_witness:
  "GetObject session 3 = Some 0 \<and> dma_map_addr (objects session 0) = 0x1000 \<and>
   (\<exists>m'. MapBuffer session_gpu session (map_request 3) (replicate 12 0)
      = Inr (0, session\<lparr>buffer_mappings := m'\<rparr>, [1, 0, 0, 0, 3, 0, 0, 0, 0, 0x10, 0, 0])) \<and>
   (\<exists>s1 m'. MapBuffer session_gpu session (map_request 4) (replicate 12 0)
      = Inr (0, s1, [1, 0, 0, 0, 4, 0, 0, 0, 0, 0x30, 0, 0]) \<and>
      gpu_calls s1 = [MapAllocate32 0x80002000 0x1000] \<and>
      MapBuffer session_gpu s1 (map_request 4) (replicate 12 0)
      = Inr (0, s1\<lparr>buffer_mappings := m'\<rparr>, [1, 0, 0, 0, 4, 0, 0, 0, 0, 0x30, 0, 0]))"
proof -
  let ?e3 = "\<lparr>map_handle = 3, map_address = 0\<rparr>"
  let ?e4 = "\<lparr>map_handle = 4, map_address = 0\<rparr>"
  have size: "request_size (map_request 3) = 12" "request_size (map_request 4) = 12"
    by (simp_all add: request_defs codec_defs session_defs)
  have len: "length (map_request 3) = 12" "length (map_request 4) = 12"
    by (simp_all add: map_request_def)
  have e3: "request_entries (map_request 3) = [?e3]"
    and e4: "request_entries (map_request 4) = [?e4]"
    by (simp_all add: request_entries_map_request)
  have a: "GetObject session (map_handle ?e3) = Some 0"
    by (simp add: GetObject_def session_def)
  have b: "dma_map_addr (objects session 0) \<noteq> 0" and b': "dma_map_addr (objects session 0) = 0x1000"
    by (simp_all add: session_defs)
  from MapBuffer_reuses_address [OF a b, where inp = "map_request 3" and outp = "replicate 12 0"
      and g = session_gpu] a b
  have "\<exists>m'. MapBuffer session_gpu session (map_request 3) (replicate 12 0)
      = Inr (0, session\<lparr>buffer_mappings := m'\<rparr>,
             take 4 (map_request 3) @ store_MapBufferEntry (reported_entry session ?e3))"
    by (simp add: size len e3)
  moreover have "take 4 (map_request 3) @ store_MapBufferEntry (reported_entry session ?e3)
      = [1, 0, 0, 0, 3, 0, 0, 0, 0, 0x10, 0, 0]"
    by (simp add: reported_entry_def GetObject_def session_defs codec_defs)
  ultimately have first: "\<exists>m'. MapBuffer session_gpu session (map_request 3) (replicate 12 0)
      = Inr (0, session\<lparr>buffer_mappings := m'\<rparr>, [1, 0, 0, 0, 3, 0, 0, 0, 0, 0x10, 0, 0])"
    by simp
  have "\<exists>s1. MapBuffer session_gpu session (map_request 4) (replicate 12 0)
      = Inr (0, s1, [1, 0, 0, 0, 4, 0, 0, 0, 0, 0x30, 0, 0]) \<and>
      gpu_calls s1 = [MapAllocate32 0x80002000 0x1000] \<and>
      GetObject s1 4 = Some 1 \<and> dma_map_addr (objects s1 1) = 0x3000"
    by (simp add: codec_defs map_defs device_defs session_defs Let_def upt_rec)
  then obtain s1 where
    m1: "MapBuffer session_gpu session (map_request 4) (replicate 12 0)
      = Inr (0, s1, [1, 0, 0, 0, 4, 0, 0, 0, 0, 0x30, 0, 0])"
    and c1: "gpu_calls s1 = [MapAllocate32 0x80002000 0x1000]"
    and a1: "GetObject s1 (map_handle ?e4) = Some 1" and b1: "dma_map_addr (objects s1 1) = 0x3000"
    by auto
  from b1 have n1: "dma_map_addr (objects s1 1) \<noteq> 0" by simp
  from MapBuffer_reuses_address [OF a1 n1, where inp = "map_request 4" and outp = "replicate 12 0"
      and g = session_gpu] a1 n1
  have "\<exists>m'. MapBuffer session_gpu s1 (map_request 4) (replicate 12 0)
      = Inr (0, s1\<lparr>buffer_mappings := m'\<rparr>,
             take 4 (map_request 4) @ store_MapBufferEntry (reported_entry s1 ?e4))"
    by (simp add: size len e4)
  moreover have "take 4 (map_request 4) @ store_MapBufferEntry (reported_entry s1 ?e4)
      = [1, 0, 0, 0, 4, 0, 0, 0, 0, 0x30, 0, 0]"
    using a1 b1 by (simp add: reported_entry_def session_defs codec_defs)
  ultimately have "\<exists>m'. MapBuffer session_gpu s1 (map_request 4) (replicate 12 0)
      = Inr (0, s1\<lparr>buffer_mappings := m'\<rparr>, [1, 0, 0, 0, 4, 0, 0, 0, 0, 0x30, 0, 0])"
    by simp
  with m1 c1 first a b' show ?thesis by auto
qed

subsection \<open>Submit: the decode\<close>

lemma Submit_splice_Inr:
  assumes "Submit_input_size L params \<le> length input"
  shows "\<exists>rs shs incs wcs fs. Submit_splice L input params =
           Inr \<lparr>command_buffers =
                  map (\<lambda>i. load_CommandBuffer input (sizeof_IoctlSubmit + i * sizeof_CommandBuffer))
                    [0..<unat (cmd_buffer_count params)],
                relocs = rs, reloc_shifts = shs, syncpt_increments = incs, wait_checks = wcs,
                fences = fs\<rparr>"
  using assms
  by (simp add: Submit_splice_def SpliceVectors_def Submit_input_size_def mult.commute)

lemma Submit_splice_Inl:
  assumes "length input < Submit_input_size L params"
  shows "Submit_splice L input params = Inl OutOfBoundsRead"
  using assms
  by (simp add: Submit_splice_def SpliceVectors_def Submit_input_size_def mult.commute)

lemma vector_alloc_Inl: "vector_alloc L live n = Inl e \<Longrightarrow> e = BadAlloc"
  by (simp add: vector_alloc_def split: if_splits)

lemma construct_vectors_Inl: "construct_vectors L live ns = Inl e \<Longrightarrow> e = BadAlloc"
proof (induction ns arbitrary: live)
  case Nil
  then show ?case by simp
next
  case (Cons n ns)
  then show ?case by (auto split: sum.splits dest: vector_alloc_Inl)
qed

lemma not_constructed:
  "\<not> vectors_constructed L params \<Longrightarrow>
     construct_vectors L [] (Submit_vector_sizes L params) = Inl BadAlloc"
  by (auto simp: vectors_constructed_def split: sum.splits dest: construct_vectors_Inl)

lemma constructed:
  "vectors_constructed L params \<Longrightarrow>
     \<exists>live. construct_vectors L [] (Submit_vector_sizes L params) = Inr live"
  by (auto simp: vectors_constructed_def split: sum.splits)

lemma FindBufferMap_Inl: "FindBufferMap m a = Inl e \<Longrightarrow> e = AssertionFailed"
  by (simp add: FindBufferMap_def Let_def split: if_splits)

lemma Submit_loop_Inl:
  "Submit_loop L g live s cs = Inl e \<Longrightarrow> e = AssertionFailed \<or> e = BadAlloc"
proof (induction cs arbitrary: s)
  case Nil
  then show ?case by simp
next
  case (Cons c cs)
  then show ?case
    by (auto simp: Let_def split: option.splits sum.splits
        dest: FindBufferMap_Inl vector_alloc_Inl)
qed

lemma memcpy_to_Inl: "memcpy_to dst off bytes = Inl e \<Longrightarrow> e = OutOfBoundsWrite"
  by (simp add: memcpy_to_def split: if_splits)

lemma WriteVectors_Inl: "WriteVectors store dst src off = Inl e \<Longrightarrow> e = OutOfBoundsWrite"
  by (auto simp: WriteVectors_def split: sum.splits dest: memcpy_to_Inl)

lemma Submit_write_Inl: "Submit_write params v output = Inl e \<Longrightarrow> e = OutOfBoundsWrite"
  unfolding Submit_write_def
  by (auto split: sum.splits prod.splits dest: memcpy_to_Inl WriteVectors_Inl)

text \<open>
  C1, as the code has it. \<^verbatim>\<open>Submit\<close> has no length check and no status for a malformed
  request. It copies the header and then constructs the six vectors (command buffers,
  relocations, relocation shifts, syncpoint increments, wait checks, fences) with the
  counts of the header; when one of these allocations fails the call ends in
  \<^verbatim>\<open>std::bad_alloc\<close> before any further copy. The call reads input bytes past the end of
  the buffer exactly when the buffer is shorter than the header, or the vectors are
  constructed and the buffer is shorter than the header plus, for each of the six
  vectors, its count times its element size; with a buffer at least that long all reads
  of the decode lie inside the buffer.
\<close>

theorem Submit_reads_past_short_input:
  "(Submit L g s input output = Inl OutOfBoundsRead \<longleftrightarrow>
      length input < sizeof_IoctlSubmit \<or>
      vectors_constructed L (load_IoctlSubmit input) \<and>
      length input < Submit_input_size L (load_IoctlSubmit input)) \<and>
   (sizeof_IoctlSubmit \<le> length input \<and> \<not> vectors_constructed L (load_IoctlSubmit input)
      \<longrightarrow> Submit L g s input output = Inl BadAlloc)"
proof (cases "length input < sizeof_IoctlSubmit")
  case True
  then show ?thesis by (simp add: Submit_def read_params_def)
next
  case hdr: False
  then have r: "read_params sizeof_IoctlSubmit load_IoctlSubmit input = Inr (load_IoctlSubmit input)"
    by (simp add: read_params_def)
  show ?thesis
  proof (cases "vectors_constructed L (load_IoctlSubmit input)")
    case False
    then show ?thesis
      using hdr by (simp add: Submit_def r not_constructed)
  next
    case True
    then obtain live where
      c: "construct_vectors L [] (Submit_vector_sizes L (load_IoctlSubmit input)) = Inr live"
      using constructed by blast
    show ?thesis
    proof (cases "length input < Submit_input_size L (load_IoctlSubmit input)")
      case short: True
      with True show ?thesis by (simp add: Submit_def r c Submit_splice_Inl)
    next
      case False
      then have "Submit_input_size L (load_IoctlSubmit input) \<le> length input" by simp
      from Submit_splice_Inr [OF this] obtain v where
        v: "Submit_splice L input (load_IoctlSubmit input) = Inr v" by blast
      have "Submit L g s input output \<noteq> Inl OutOfBoundsRead"
        unfolding Submit_def
        by (auto simp: r c v split: sum.splits option.splits prod.splits
            dest: Submit_loop_Inl Submit_write_Inl)
      with hdr True False show ?thesis by simp
    qed
  qed
qed

text \<open>
  A header that announces \<open>0xFFFFFFFF\<close> command buffers, on a platform that grants a call
  \<open>2 ^ 30\<close> bytes: the first vector is not constructed and nothing is copied after the
  header. A header that announces one command buffer: the vectors are constructed and the
  copy reads past the end.
\<close>

theorem Submit_reads_past_short_input_witness:
  "sizeof_IoctlSubmit \<le> length submit_header_huge \<and>
   cmd_buffer_count (load_IoctlSubmit submit_header_huge) = 0xFFFFFFFF \<and>
   \<not> vectors_constructed session_platform (load_IoctlSubmit submit_header_huge) \<and>
   Submit session_platform session_gpu session submit_header_huge (replicate 28 0) = Inl BadAlloc \<and>
   vectors_constructed session_platform (load_IoctlSubmit submit_header_only) \<and>
   length submit_header_only < Submit_input_size session_platform (load_IoctlSubmit submit_header_only) \<and>
   Submit session_platform session_gpu session submit_header_only (replicate 28 0)
     = Inl OutOfBoundsRead"
proof -
  have a: "sizeof_IoctlSubmit \<le> length submit_header_huge"
    by (simp add: submit_header_huge_def sizeof_IoctlSubmit_def)
  have n: "cmd_buffer_count (load_IoctlSubmit submit_header_huge) = 0xFFFFFFFF"
    by (simp add: submit_header_huge_def codec_defs)
  have b: "\<not> vectors_constructed session_platform (load_IoctlSubmit submit_header_huge)"
    by (simp add: vectors_constructed_def Submit_vector_sizes_def vector_alloc_def n
        session_platform_def sizeof_CommandBuffer_def)
  have c: "vectors_constructed session_platform (load_IoctlSubmit submit_header_only)"
    by (simp add: vectors_constructed_def Submit_vector_sizes_def vector_alloc_def
        submit_header_only_def codec_defs session_platform_def)
  have d: "length submit_header_only
      < Submit_input_size session_platform (load_IoctlSubmit submit_header_only)"
    by (simp add: request_defs codec_defs)
  from Submit_reads_past_short_input [of session_platform session_gpu session
      submit_header_huge "replicate 28 0"]
    Submit_reads_past_short_input [of session_platform session_gpu session
      submit_header_only "replicate 28 0"] a n b c d
  show ?thesis by simp
qed

text \<open>
  C1, as the claim states it: a buffer shorter than the header plus
  \<open>cmd_buffer_count * sizeof(CommandBuffer)\<close> is rejected with a malformed-request
  failure before any read past its end. A request that is the 16 bytes of a header with
  \<open>cmd_buffer_count = 1\<close>: the code goes on to copy the 12 bytes of the command buffer
  from behind the end of the input.
\<close>

theorem Submit_short_input_not_rejected:
  "length submit_header_only < sizeof_IoctlSubmit + 1 * sizeof_CommandBuffer \<and>
   cmd_buffer_count (load_IoctlSubmit submit_header_only) = 1 \<and>
   Submit session_platform session_gpu session submit_header_only (replicate 28 0)
     = Inl OutOfBoundsRead"
  by (simp add: Submit_def Submit_splice_def Submit_vector_sizes_def vector_alloc_def
      codec_defs request_defs)

subsection \<open>Submit: the loop and the write-back\<close>

lemma memcpy_to_prefix:
  assumes "k + n \<le> length input" and "k + n \<le> length output"
  shows "memcpy_to (take k input @ drop k output) k (take n (drop k input))
           = Inr (take (k + n) input @ drop (k + n) output)"
proof -
  from assms have "take k input @ take n (drop k input) = take (k + n) input"
    by (simp add: take_add)
  with assms show ?thesis
    by (simp add: memcpy_to_def min_absorb2 add.commute)
qed

lemma WriteVectors_prefix:
  assumes rt: "\<And>off'. off' + sz \<le> length input \<Longrightarrow> store (load input off') = take sz (drop off' input)"
    and i: "k + n * sz \<le> length input" and o: "k + n * sz \<le> length output"
  shows "WriteVectors store (take k input @ drop k output)
           (map (\<lambda>i. load input (k + i * sz)) [0..<n]) k
           = Inr (take (k + n * sz) input @ drop (k + n * sz) output, k + n * sz)"
proof -
  have c: "concat (map store (map (\<lambda>i. load input (k + i * sz)) [0..<n])) = take (n * sz) (drop k input)"
    using rt i by (rule concat_store_load)
  have l: "length (take (n * sz) (drop k input)) = n * sz"
    using i by simp
  show ?thesis
    unfolding WriteVectors_def c l using memcpy_to_prefix [OF i o] by simp
qed

lemma vector_alloc_granted:
  "granted L live n \<Longrightarrow> \<exists>live'. vector_alloc L live n = Inr live'"
  by (auto simp: granted_def vector_alloc_def)

lemma Submit_loop_all_found:
  "\<forall>cb\<in>set cbs.
      (\<exists>p. GetObject s (memory_id cb) = Some p \<and>
         FindBufferMap (buffer_mappings s) (ucast (dma_map_addr (objects s p)))
           = Inr (Some (found cb))) \<and>
      granted L live (unat (word_count cb) * 4) \<Longrightarrow>
   Submit_loop L g live s cbs =
     Inr (s\<lparr>gpu_calls := gpu_calls s @
             forwarded g (gpu_calls s)
               (map (\<lambda>cb. (StartAddr (found cb) + ucast (offset cb), unat (word_count cb))) cbs)\<rparr>,
          None)"
proof (induction cbs arbitrary: s)
  case Nil
  then show ?case by simp
next
  case (Cons cb cbs)
  from Cons.prems obtain p where p: "GetObject s (memory_id cb) = Some p"
    and m: "FindBufferMap (buffer_mappings s) (ucast (dma_map_addr (objects s p)))
              = Inr (Some (found cb))"
    and gr: "granted L live (unat (word_count cb) * 4)"
    by auto
  from vector_alloc_granted [OF gr] obtain live' where
    al: "vector_alloc L live (unat (word_count cb) * 4) = Inr live'" by blast
  define a where "a = StartAddr (found cb) + ucast (offset cb)"
  define n where "n = unat (word_count cb)"
  define two where
    "two = [ReadBlock a (n * 4), PushCommandBuffer (ReadBlock_result g (gpu_calls s) a (n * 4))]"
  let ?s1 = "s\<lparr>gpu_calls := gpu_calls s @ two\<rparr>"
  have step: "Submit_loop L g live s (cb # cbs) = Submit_loop L g live ?s1 cbs"
    using p m al by (simp add: Let_def call_gpu_def a_def n_def two_def)
  from Cons.prems
  have "\<forall>cb\<in>set cbs.
      (\<exists>p. GetObject ?s1 (memory_id cb) = Some p \<and>
         FindBufferMap (buffer_mappings ?s1) (ucast (dma_map_addr (objects ?s1 p)))
           = Inr (Some (found cb))) \<and>
      granted L live (unat (word_count cb) * 4)"
    by (simp add: GetObject_def)
  from Cons.IH [OF this] step
  show ?case
    by (simp add: a_def n_def two_def)
qed

lemma Submit_write_prefix:
  assumes i: "Submit_input_size L (load_IoctlSubmit input) \<le> length input"
    and o: "Submit_output_size L (load_IoctlSubmit input) \<le> length output"
  shows "\<exists>v. Submit_splice L input (load_IoctlSubmit input) = Inr v \<and>
           command_buffers v = request_command_buffers input \<and>
           Submit_write (load_IoctlSubmit input) v output
             = Inr (take (Submit_output_size L (load_IoctlSubmit input)) input
                    @ drop (Submit_output_size L (load_IoctlSubmit input)) output)"
proof -
  define params where "params = load_IoctlSubmit input"
  define c where "c = unat (cmd_buffer_count params)"
  define r where "r = unat (relocation_count params)"
  define n where "n = unat (syncpoint_count params)"
  define f where "f = unat (fence_count params)"
  define R where "R = sizeof_Reloc L"
  define S where "S = sizeof_SyncptIncr L"
  define F where "F = sizeof_Fence L"
  define k0 where "k0 = sizeof_IoctlSubmit"
  define k1 where "k1 = k0 + c * sizeof_CommandBuffer"
  define k2 where "k2 = k1 + r * R"
  define k3 where "k3 = k2 + r * 4"
  define k4 where "k4 = k3 + n * S"
  define k5 where "k5 = k4 + n * S"
  define v where "v =
     \<lparr>command_buffers = map (\<lambda>i. load_CommandBuffer input (k0 + i * sizeof_CommandBuffer)) [0..<c],
      relocs = map (\<lambda>i. load_raw R input (k1 + i * R)) [0..<r],
      reloc_shifts = map (\<lambda>i. load_u32 input (k2 + i * 4)) [0..<r],
      syncpt_increments = map (\<lambda>i. load_raw S input (k3 + i * S)) [0..<n],
      wait_checks = map (\<lambda>i. load_raw S input (k4 + i * S)) [0..<n],
      fences = map (\<lambda>i. load_raw F input (k5 + i * F)) [0..<f]\<rparr>"
  have isz: "Submit_input_size L params = k5 + f * F"
    by (simp add: Submit_input_size_def k5_def k4_def k3_def k2_def k1_def k0_def
        c_def r_def n_def f_def R_def S_def F_def)
  have osz: "Submit_output_size L params = k5"
    by (simp add: Submit_output_size_def k5_def k4_def k3_def k2_def k1_def k0_def
        c_def r_def n_def R_def S_def)
  from i isz have li: "k5 + f * F \<le> length input" by (simp add: params_def)
  from o osz have lo: "k5 \<le> length output" by (simp add: params_def)
  have mono: "k0 \<le> k1" "k1 \<le> k2" "k2 \<le> k3" "k3 \<le> k4" "k4 \<le> k5"
    by (simp_all add: k5_def k4_def k3_def k2_def k1_def)
  have splice: "Submit_splice L input params = Inr v"
    unfolding Submit_splice_def SpliceVectors_def
    using li mono
    by (simp add: v_def k5_def [symmetric] k4_def [symmetric] k3_def [symmetric]
        k2_def [symmetric] k1_def [symmetric] k0_def [symmetric]
        c_def [symmetric] r_def [symmetric] n_def [symmetric] f_def [symmetric]
        R_def [symmetric] S_def [symmetric] F_def [symmetric])
  have cbs: "command_buffers v = request_command_buffers input"
    by (simp add: v_def request_command_buffers_def k0_def c_def params_def)
  have "16 \<le> length input" using li mono by (simp add: k0_def sizeof_IoctlSubmit_def)
  then have hdr: "store_IoctlSubmit params = take k0 input"
    by (simp add: params_def k0_def sizeof_IoctlSubmit_def store_load_IoctlSubmit)
  have w0: "memcpy_to output 0 (store_IoctlSubmit params) = Inr (take k0 input @ drop k0 output)"
    using li lo mono by (simp add: memcpy_to_def hdr)
  have w1: "WriteVectors store_CommandBuffer (take k0 input @ drop k0 output) (command_buffers v) k0
              = Inr (take k1 input @ drop k1 output, k1)"
    unfolding k1_def v_def submit_vectors.simps
  proof (rule WriteVectors_prefix)
    show "store_CommandBuffer (load_CommandBuffer input off') = take sizeof_CommandBuffer (drop off' input)"
      if "off' + sizeof_CommandBuffer \<le> length input" for off'
      using that by (simp add: sizeof_CommandBuffer_def store_load_CommandBuffer)
    show "k0 + c * sizeof_CommandBuffer \<le> length input" using li mono by (simp add: k1_def)
    show "k0 + c * sizeof_CommandBuffer \<le> length output" using lo mono by (simp add: k1_def)
  qed
  have w2: "WriteVectors store_raw (take k1 input @ drop k1 output) (relocs v) k1
              = Inr (take k2 input @ drop k2 output, k2)"
    unfolding k2_def v_def submit_vectors.simps
  proof (rule WriteVectors_prefix)
    show "store_raw (load_raw R input off') = take R (drop off' input)" for off'
      by (rule store_load_raw)
    show "k1 + r * R \<le> length input" using li mono by (simp add: k2_def)
    show "k1 + r * R \<le> length output" using lo mono by (simp add: k2_def)
  qed
  have w3: "WriteVectors store_u32 (take k2 input @ drop k2 output) (reloc_shifts v) k2
              = Inr (take k3 input @ drop k3 output, k3)"
    unfolding k3_def v_def submit_vectors.simps
  proof (rule WriteVectors_prefix)
    show "store_u32 (load_u32 input off') = take 4 (drop off' input)"
      if "off' + 4 \<le> length input" for off'
      using that by (rule store_load_u32)
    show "k2 + r * 4 \<le> length input" using li mono by (simp add: k3_def)
    show "k2 + r * 4 \<le> length output" using lo mono by (simp add: k3_def)
  qed
  have w4: "WriteVectors store_raw (take k3 input @ drop k3 output) (syncpt_increments v) k3
              = Inr (take k4 input @ drop k4 output, k4)"
    unfolding k4_def v_def submit_vectors.simps
  proof (rule WriteVectors_prefix)
    show "store_raw (load_raw S input off') = take S (drop off' input)" for off'
      by (rule store_load_raw)
    show "k3 + n * S \<le> length input" using li mono by (simp add: k4_def)
    show "k3 + n * S \<le> length output" using lo mono by (simp add: k4_def)
  qed
  have w5: "WriteVectors store_raw (take k4 input @ drop k4 output) (wait_checks v) k4
              = Inr (take k5 input @ drop k5 output, k5)"
    unfolding k5_def v_def submit_vectors.simps
  proof (rule WriteVectors_prefix)
    show "store_raw (load_raw S input off') = take S (drop off' input)" for off'
      by (rule store_load_raw)
    show "k4 + n * S \<le> length input" using li mono by (simp add: k5_def)
    show "k4 + n * S \<le> length output" using lo mono by (simp add: k5_def)
  qed
  have "Submit_write params v output = Inr (take k5 input @ drop k5 output)"
    unfolding Submit_write_def by (simp add: w0 k0_def [symmetric] w1 w2 w3 w4 w5)
  with splice cbs osz show ?thesis
    unfolding params_def by blast
qed

text \<open>
  The call when the vectors are constructed and \<^verbatim>\<open>FindBufferMap\<close> returns a mapping for
  every descriptor: for each descriptor, \<^verbatim>\<open>ReadBlock\<close> of \<open>word_count\<close> words at the start
  of the returned mapping plus the descriptor's offset, and the push of these words;
  nothing else in the session changes; status 0; the header and the first five vectors
  are written to the output as they were in the input, and the output behind them, where
  the fences would go, is left as it was.
\<close>

lemma Submit_all_found:
  assumes "Submit_input_size L (load_IoctlSubmit inp) \<le> length inp"
    and "Submit_output_size L (load_IoctlSubmit inp) \<le> length outp"
    and "construct_vectors L [] (Submit_vector_sizes L (load_IoctlSubmit inp)) = Inr live"
    and "\<forall>cb\<in>set (request_command_buffers inp).
           (\<exists>p. GetObject s (memory_id cb) = Some p \<and>
              FindBufferMap (buffer_mappings s) (ucast (dma_map_addr (objects s p)))
                = Inr (Some (found cb))) \<and>
           granted L live (unat (word_count cb) * 4)"
  shows "Submit L g s inp outp =
           Inr (0, s\<lparr>gpu_calls := gpu_calls s @
                       forwarded g (gpu_calls s)
                         (map (\<lambda>cb. (StartAddr (found cb) + ucast (offset cb),
                                      unat (word_count cb)))
                            (request_command_buffers inp))\<rparr>,
                take (Submit_output_size L (load_IoctlSubmit inp)) inp
                  @ drop (Submit_output_size L (load_IoctlSubmit inp)) outp)"
proof -
  from Submit_write_prefix [OF assms(1,2)] obtain v where
    v: "Submit_splice L inp (load_IoctlSubmit inp) = Inr v"
    and c: "command_buffers v = request_command_buffers inp"
    and w: "Submit_write (load_IoctlSubmit inp) v outp
             = Inr (take (Submit_output_size L (load_IoctlSubmit inp)) inp
                    @ drop (Submit_output_size L (load_IoctlSubmit inp)) outp)"
    by blast
  note l = Submit_loop_all_found [OF assms(4), of g]
  from assms(1) have "sizeof_IoctlSubmit \<le> length inp"
    by (simp add: Submit_input_size_def)
  then have r: "read_params sizeof_IoctlSubmit load_IoctlSubmit inp = Inr (load_IoctlSubmit inp)"
    by (simp add: read_params_def)
  show ?thesis
    by (simp add: Submit_def r assms(3) v c l w Success_def)
qed

lemma replicate_2: "replicate 2 x = [x, x]"
  by (simp add: numeral_2_eq_2)

lemma request_command_buffers_submit_request:
  "request_command_buffers (submit_request h)
     = [\<lparr>memory_id = ucast h, offset = 0x10, word_count = 2\<rparr>]"
  by (simp add: request_defs codec_defs upt_rec)

text \<open>
  C3. The claim: a descriptor for whose object the lookup finds no mapping is skipped, the
  other descriptors are processed, the status is 0 and the header and the first four
  trailing arrays are written to the output. The code, for a request with one descriptor
  for handle 4, whose object has the device-mapping address 0, an address that neither
  mapping of the session holds: \<^verbatim>\<open>FindBufferMap\<close> returns the mapping at \<open>0x1000\<close>, and
  \<^verbatim>\<open>Submit\<close> reads the descriptor's two words at \<open>0x1010\<close>, inside that mapping, and pushes
  them, instead of skipping the descriptor. The same request in the session with an empty
  buffer map: the assertion of \<^verbatim>\<open>FindBufferMap\<close> fails, no status is returned and
  nothing is written.
\<close>

theorem Submit_forwards_without_mapping:
  "GetObject session 4 = Some 1 \<and> dma_map_addr (objects session 1) = 0 \<and>
   buffer_mappings session = [(0x1000, b1000), (0x2000, b2000)] \<and>
   \<not> in_range b1000 0 \<and> \<not> in_range b2000 0 \<and>
   FindBufferMap (buffer_mappings session) 0 = Inr (Some b1000) \<and>
   Submit session_platform session_gpu session (submit_request 4) (replicate 72 0)
     = Inr (0, session\<lparr>gpu_calls := [ReadBlock 0x1010 8, PushCommandBuffer [0, 0]]\<rparr>,
            take 64 (submit_request 4) @ replicate 8 0) \<and>
   Submit session_platform session_gpu (session\<lparr>buffer_mappings := []\<rparr>) (submit_request 4)
     (replicate 72 0) = Inl AssertionFailed"
  by (simp add: Submit_def Submit_splice_def Submit_write_def Submit_vector_sizes_def
      vector_alloc_def codec_defs map_defs request_defs session_defs GetObject_def call_gpu_def
      Success_def Let_def upt_rec replicate_2)

text \<open>
  The session's request for handle 3, whose object is mapped at \<open>0x1000\<close>: the relocation,
  its shift, the syncpoint increment and the wait check come back in the output, the
  fence does not.
\<close>

lemma Submit_all_found_session:
  "Submit session_platform session_gpu session (submit_request 3) (replicate 72 0xFF)
     = Inr (0, session\<lparr>gpu_calls := [ReadBlock 0x1010 8, PushCommandBuffer [0, 0]]\<rparr>,
            take 64 (submit_request 3) @ replicate 8 0xFF)"
proof -
  have i: "Submit_input_size session_platform (load_IoctlSubmit (submit_request 3)) = 72"
    and o: "Submit_output_size session_platform (load_IoctlSubmit (submit_request 3)) = 64"
    by (simp_all add: request_defs codec_defs)
  have len: "length (submit_request 3) = 72"
    by (simp add: submit_request_def)
  have a: "Submit_input_size session_platform (load_IoctlSubmit (submit_request 3))
      \<le> length (submit_request 3)"
    by (simp add: i len)
  have b: "Submit_output_size session_platform (load_IoctlSubmit (submit_request 3))
      \<le> length (replicate 72 (0xFF :: u8))"
    by (simp add: o)
  have c: "construct_vectors session_platform []
      (Submit_vector_sizes session_platform (load_IoctlSubmit (submit_request 3)))
      = Inr [12, 16, 4, 8, 8, 8]"
    by (simp add: Submit_vector_sizes_def vector_alloc_def request_defs codec_defs)
  have d: "\<forall>cb\<in>set (request_command_buffers (submit_request 3)).
      (\<exists>p. GetObject session (memory_id cb) = Some p \<and>
         FindBufferMap (buffer_mappings session) (ucast (dma_map_addr (objects session p)))
           = Inr (Some ((\<lambda>cb. b1000) cb))) \<and>
      granted session_platform [12, 16, 4, 8, 8, 8] (unat (word_count cb) * 4)"
    unfolding request_command_buffers_submit_request
    by (simp add: GetObject_def granted_def map_defs session_defs session_platform_def)
  from Submit_all_found [OF a b c d, of session_gpu]
  show ?thesis
    by (simp add: o request_command_buffers_submit_request session_defs map_defs replicate_2)
qed

subsection \<open>The path of a handle without object, for every request\<close>

text \<open>
  The loops stop at the first entry whose handle has no object. The copy on that path
  gives the header back only when the output buffer is no longer than the header; for
  every longer output buffer it reads past \<open>params\<close>.
\<close>

lemma MapBuffer_invalid_handle:
  assumes "request_size inp \<le> length inp"
    and "MapBuffer_loop g s (request_entries inp) = Inr (s', None)"
  shows "MapBuffer g s inp outp =
           (if length outp \<le> sizeof_IoctlMapBuffer
            then Inr (InvalidInput, s', take (length outp) inp) else Inl OutOfBoundsRead)"
proof -
  from assms(1) have i4: "4 \<le> length inp"
    by (simp add: request_size_def sizeof_IoctlMapBuffer_def)
  then have "store_IoctlMapBuffer (load_IoctlMapBuffer inp) = take 4 inp"
    by (rule store_load_IoctlMapBuffer)
  with i4 have "copy_params_to_output (load_IoctlMapBuffer inp) outp =
           (if length outp \<le> sizeof_IoctlMapBuffer
            then Inr (take (length outp) inp) else Inl OutOfBoundsRead)"
    by (simp add: copy_params_to_output_def memcpy_to_def sizeof_IoctlMapBuffer_def min_absorb1)
  then show ?thesis
    using assms(2) by (simp add: MapBuffer_def request_decode [OF assms(1)])
qed

lemma UnmapBuffer_invalid_handle:
  assumes "request_size inp \<le> length inp"
    and "UnmapBuffer_loop s (request_entries inp) = (s', False)"
  shows "UnmapBuffer s inp outp =
           (if length outp \<le> sizeof_IoctlMapBuffer
            then Inr (InvalidInput, s', take (length outp) inp) else Inl OutOfBoundsRead)"
proof -
  from assms(1) have i4: "4 \<le> length inp"
    by (simp add: request_size_def sizeof_IoctlMapBuffer_def)
  then have "store_IoctlMapBuffer (load_IoctlMapBuffer inp) = take 4 inp"
    by (rule store_load_IoctlMapBuffer)
  with i4 have "copy_params_to_output (load_IoctlMapBuffer inp) outp =
           (if length outp \<le> sizeof_IoctlMapBuffer
            then Inr (take (length outp) inp) else Inl OutOfBoundsRead)"
    by (simp add: copy_params_to_output_def memcpy_to_def sizeof_IoctlMapBuffer_def min_absorb1)
  then show ?thesis
    using assms(2) by (simp add: UnmapBuffer_def request_decode [OF assms(1)])
qed

lemma MapBuffer_loop_stops:
  "GetObject s (map_handle e) = None \<Longrightarrow> MapBuffer_loop g s (e # es) = Inr (s, None)"
  by (simp add: MapBuffer_entry_def)

lemma UnmapBuffer_loop_stops:
  "GetObject s (map_handle e) = None \<Longrightarrow> UnmapBuffer_loop s (e # es) = (s, False)"
  by (simp add: UnmapBuffer_entry_def)

end
